theory Spec2Isabelle
  imports Main "HOL-Library.Sublist" "HOL-Library.Multiset" "HOL-Library.AList"
    "HOL-Library.Char_ord" "HOL-Library.List_Lexorder"
begin

section \<open>Texts and the string functions of the Go library\<close>

text \<open>
  A Go string is modelled as a \<^typ>\<open>string\<close>, a list of bytes. The library functions
  below are written for ASCII text: \<^verbatim>\<open>strings.Fields\<close> and \<^verbatim>\<open>strings.TrimSpace\<close> split
  on the six ASCII white-space bytes, \<^verbatim>\<open>strings.ToUpper\<close> and \<^verbatim>\<open>strings.ToLower\<close> change
  the letters a..z and A..Z only. On text with bytes above 0x7F Go decodes UTF-8 and
  also knows the Unicode spaces and letters; that part of the library is outside the model.
\<close>

definition isSpace :: "char \<Rightarrow> bool" where
  "isSpace c \<longleftrightarrow> c \<in> {CHR 0x09, CHR 0x0A, CHR 0x0B, CHR 0x0C, CHR 0x0D, CHR '' ''}"

definition TrimSpace :: "string \<Rightarrow> string" where
  "TrimSpace s = rev (dropWhile isSpace (rev (dropWhile isSpace s)))"

function Fields :: "string \<Rightarrow> string list" where
  "Fields [] = []"
| "Fields (c # cs) =
     (if isSpace c then Fields cs
      else takeWhile (\<lambda>x. \<not> isSpace x) (c # cs) # Fields (dropWhile (\<lambda>x. \<not> isSpace x) cs))"
  by pat_completeness auto
termination
  by (relation "measure length") (auto simp: less_Suc_eq_le length_dropWhile_le)

fun Join :: "string list \<Rightarrow> string \<Rightarrow> string" where
  "Join [] sep = []"
| "Join [w] sep = w"
| "Join (w # v # ws) sep = w @ sep @ Join (v # ws) sep"

text \<open>\<^verbatim>\<open>strings.Index\<close>: the position of the first occurrence, \<open>None\<close> for Go's -1.\<close>

fun Index :: "string \<Rightarrow> string \<Rightarrow> nat option" where
  "Index [] sub = (if sub = [] then Some 0 else None)"
| "Index (c # cs) sub =
     (if prefix sub (c # cs) then Some 0 else map_option Suc (Index cs sub))"

definition Contains :: "string \<Rightarrow> string \<Rightarrow> bool" where
  "Contains s sub \<longleftrightarrow> Index s sub \<noteq> None"

definition HasPrefix :: "string \<Rightarrow> string \<Rightarrow> bool" where
  "HasPrefix s pre \<longleftrightarrow> prefix pre s"

text \<open>\<^verbatim>\<open>strings.ReplaceAll\<close> for a non-empty pattern (the program calls it with a line break).\<close>

function ReplaceAll :: "string \<Rightarrow> string \<Rightarrow> string \<Rightarrow> string" where
  "ReplaceAll [] old new = []"
| "ReplaceAll (c # cs) old new =
     (if old \<noteq> [] \<and> prefix old (c # cs)
      then new @ ReplaceAll (drop (length old) (c # cs)) old new
      else c # ReplaceAll cs old new)"
  by pat_completeness auto
termination
  by (relation "measure (\<lambda>(s, old, new). length s)") (auto simp: neq_Nil_conv)

definition isLower :: "char \<Rightarrow> bool" where
  "isLower c \<longleftrightarrow> 97 \<le> (of_char c :: nat) \<and> (of_char c :: nat) \<le> 122"

definition isUpper :: "char \<Rightarrow> bool" where
  "isUpper c \<longleftrightarrow> 65 \<le> (of_char c :: nat) \<and> (of_char c :: nat) \<le> 90"

definition isDigit :: "char \<Rightarrow> bool" where
  "isDigit c \<longleftrightarrow> 48 \<le> (of_char c :: nat) \<and> (of_char c :: nat) \<le> 57"

definition upperChar :: "char \<Rightarrow> char" where
  "upperChar c = (if isLower c then char_of ((of_char c :: nat) - 32) else c)"

definition lowerChar :: "char \<Rightarrow> char" where
  "lowerChar c = (if isUpper c then char_of ((of_char c :: nat) + 32) else c)"

definition ToUpper :: "string \<Rightarrow> string" where
  "ToUpper s = map upperChar s"

definition ToLower :: "string \<Rightarrow> string" where
  "ToLower s = map lowerChar s"

text \<open>The verb \<^verbatim>\<open>%d\<close> of \<^verbatim>\<open>fmt.Sprintf\<close> on a count (never negative).\<close>

fun showNat :: "nat \<Rightarrow> string" where
  "showNat n =
     (if n < 10 then [char_of (48 + n)]
      else showNat (n div 10) @ [char_of (48 + n mod 10)])"

declare showNat.simps [simp del]

text \<open>A token: a non-empty text without white space.\<close>

definition token :: "string \<Rightarrow> bool" where
  "token w \<longleftrightarrow> w \<noteq> [] \<and> (\<forall>c \<in> set w. \<not> isSpace c)"

section \<open>Data model\<close>

text \<open>
  A value of Go's \<^verbatim>\<open>interface{}\<close> as the YAML decoder delivers it: nil, a string, a
  \<^verbatim>\<open>map[string]interface{}\<close>, a sequence, or any other value (a number, a boolean, a
  mapping with non-string keys, ...). The program only ever prints such another value, so
  \<open>Scalar v s\<close> carries the two texts that \<^verbatim>\<open>fmt\<close> prints for it under \<^verbatim>\<open>%v\<close> and
  \<^verbatim>\<open>%s\<close>.

  A Go map is an association list. \<open>m[k]\<close> is \<^const>\<open>map_of\<close>, \<open>m[k] = v\<close> is
  \<^const>\<open>AList.update\<close>, and a \<^verbatim>\<open>range\<close> over the map visits the entries from left to
  right: Go leaves the order of a \<^verbatim>\<open>range\<close> open, so for a map of the input the order
  of the list is the order this run of the program happens to visit it in.
\<close>

datatype yaml =
    Nil
  | Str string
  | Map "(string \<times> yaml) list"
  | Seq "yaml list"
  | Scalar string string

type_synonym Step = yaml

record DockerImage =
  Image :: string

text \<open>
  Modelled from the spec: the field \<open>Parameters\<close> of \<open>Job\<close>, the field \<open>Vars\<close> of \<open>Task\<close>
  and the field \<open>Env\<close> of \<open>Taskfile\<close>. The converter reads and writes them, the type
  declarations under src/ are older and end before them; the spec gives a job an
  "optional parameter declaration list (name to optional default value)", a task an
  "optional variable-default table" and the task-runner description an "optional
  top-level env mapping of variable name to default value". Their types follow
  \<open>Command.Parameters\<close> and the way the converter uses them.
\<close>

record Job =
  Executor :: yaml
  Docker :: "DockerImage list"
  Machine :: yaml
  Steps :: "Step list"
  Environment :: yaml
  Parameters :: "(string \<times> yaml) list"

record Command =
  Description :: string
  cmd_Parameters :: "(string \<times> yaml) list"
  cmd_Steps :: "Step list"

record CircleCIConfig =
  Version :: string
  Jobs :: "(string \<times> Job) list"
  Commands :: "(string \<times> Command) list"
  Workflows :: "(string \<times> yaml) list"
  Executors :: "(string \<times> yaml) list"

record Task =
  Desc :: string
  Cmds :: "string list"
  Deps :: "string list"
  Dir :: string
  Silent :: bool
  Vars :: "(string \<times> string) list"

record Taskfile =
  tf_Version :: string
  Tasks :: "(string \<times> Task) list"
  Env :: "(string \<times> string) list"

subsection \<open>Printing a value\<close>

text \<open>
  \<^verbatim>\<open>fmt\<close> prints a slice as \<^verbatim>\<open>[a b]\<close> and a map as \<^verbatim>\<open>map[k:v k:v]\<close> with the keys
  sorted; \<^verbatim>\<open>%s\<close> on nil prints \<^verbatim>\<open>%!s(<nil>)\<close>.
\<close>

fun fmtV :: "yaml \<Rightarrow> string" where
  "fmtV Nil = ''<nil>''"
| "fmtV (Str s) = s"
| "fmtV (Map kvs) =
     ''map['' @ Join (map (\<lambda>kv. fst kv @ '':'' @ snd kv)
                      (sort_key fst (map (\<lambda>kv. (fst kv, fmtV (snd kv))) kvs))) '' '' @ '']''"
| "fmtV (Seq xs) = ''['' @ Join (map fmtV xs) '' '' @ '']''"
| "fmtV (Scalar v s) = v"

fun fmtS :: "yaml \<Rightarrow> string" where
  "fmtS Nil = ''%!s(<nil>)''"
| "fmtS (Str s) = s"
| "fmtS (Map kvs) =
     ''map['' @ Join (map (\<lambda>kv. fst kv @ '':'' @ snd kv)
                      (sort_key fst (map (\<lambda>kv. (fst kv, fmtS (snd kv))) kvs))) '' '' @ '']''"
| "fmtS (Seq xs) = ''['' @ Join (map fmtS xs) '' '' @ '']''"
| "fmtS (Scalar v s) = s"

section \<open>Steps\<close>

definition normalizeCommand :: "string \<Rightarrow> string" where
  "normalizeCommand cmd =
     (let cmd1 = TrimSpace cmd;
          cmd2 = ReplaceAll cmd1 [CHR 0x0A] '' ''
      in Join (Fields cmd2) '' '')"

definition extractCommand :: "Step \<Rightarrow> string" where
  "extractCommand step =
     (case step of
        Map stepMap \<Rightarrow>
          (case map_of stepMap ''run'' of
             Some (Str v) \<Rightarrow> v
           | Some (Map v) \<Rightarrow>
               (case map_of v ''command'' of Some (Str cmdStr) \<Rightarrow> cmdStr | _ \<Rightarrow> [])
           | _ \<Rightarrow> [])
      | _ \<Rightarrow> [])"

text \<open>
  \<open>convertStepToCommand\<close> returns inside the first round of its \<^verbatim>\<open>range\<close> over the
  step's map, so only the entry visited first counts: the head of the list.
\<close>

definition convertStepToCommand :: "Step \<Rightarrow> string" where
  "convertStepToCommand step =
     (case step of
        Str stepStr \<Rightarrow>
          (if stepStr = ''checkout'' then ''git checkout HEAD'' else ''task '' @ stepStr)
      | Map [] \<Rightarrow> ''echo 'Unknown step type'' @ [CHR 0x27]
      | Map ((key, val) # _) \<Rightarrow>
          (if key = ''checkout'' then ''git checkout HEAD''
           else if key = ''setup_remote_docker''
             then ''echo 'Skipping setup_remote_docker (CircleCI server only)'' @ [CHR 0x27]
           else if key = ''save_cache'' then
             (case val of
                Map cacheConfig \<Rightarrow>
                  (case map_of cacheConfig ''paths'' of
                     Some paths \<Rightarrow> ''# Local cache: would save '' @ fmtV paths
                   | None \<Rightarrow> ''echo 'Skipping save_cache (CircleCI server only)'' @ [CHR 0x27])
              | _ \<Rightarrow> ''echo 'Skipping save_cache (CircleCI server only)'' @ [CHR 0x27])
           else if key = ''restore_cache''
             then ''echo 'Skipping restore_cache (CircleCI server only)'' @ [CHR 0x27]
           else if key = ''persist_to_workspace'' then
             (case val of
                Map workspaceConfig \<Rightarrow>
                  (case map_of workspaceConfig ''paths'' of
                     Some paths \<Rightarrow> ''mkdir -p ./workspace && cp -r '' @ fmtV paths @ '' ./workspace/''
                   | None \<Rightarrow> ''mkdir -p ./workspace'')
              | _ \<Rightarrow> ''mkdir -p ./workspace'')
           else if key = ''attach_workspace''
             then ''echo 'Using local workspace if available'' @ [CHR 0x27]
           else if key = ''store_artifacts'' then
             (case val of
                Map artifactConfig \<Rightarrow>
                  (case map_of artifactConfig ''path'' of
                     Some path \<Rightarrow> ''mkdir -p ./artifacts && cp -r '' @ fmtS path @ '' ./artifacts/''
                   | None \<Rightarrow> ''mkdir -p ./artifacts'')
              | _ \<Rightarrow> ''mkdir -p ./artifacts'')
           else if key = ''store_test_results'' then
             (case val of
                Map testConfig \<Rightarrow>
                  (case map_of testConfig ''path'' of
                     Some path \<Rightarrow>
                       ''mkdir -p ./test-results && cp -r '' @ fmtS path @ '' ./test-results/''
                   | None \<Rightarrow> ''mkdir -p ./test-results'')
              | _ \<Rightarrow> ''mkdir -p ./test-results'')
           else
             (case val of
                Str valueStr \<Rightarrow> valueStr
              | _ \<Rightarrow> ''echo 'Custom step not converted: '' @ key @ [CHR 0x27]))
      | _ \<Rightarrow> ''echo 'Unknown step type'' @ [CHR 0x27])"

definition builtInSteps :: "string list" where
  "builtInSteps =
     [''run'', ''checkout'', ''setup_remote_docker'', ''save_cache'', ''restore_cache'',
      ''persist_to_workspace'', ''attach_workspace'', ''store_artifacts'',
      ''store_test_results'', ''when'', ''unless'']"

text \<open>The first key visited that is no built-in step, with Go's second result as a flag.\<close>

definition isCommandInvocation :: "Step \<Rightarrow> string \<times> bool" where
  "isCommandInvocation step =
     (case step of
        Map stepMap \<Rightarrow>
          (case find (\<lambda>key. key \<notin> set builtInSteps) (map fst stepMap) of
             Some key \<Rightarrow> (key, True)
           | None \<Rightarrow> ([], False))
      | _ \<Rightarrow> ([], False))"

section \<open>Parameter markers\<close>

text \<open>
  \<open>convertParameterSyntax\<close> is a loop: find the first \<^verbatim>\<open><< parameters.\<close>, find the
  first \<^verbatim>\<open> >>\<close> from there on, replace what lies between by the upper-cased name in
  double braces, and search again from the start of the new text. The slice
  \<^verbatim>\<open>result[start+14:end]\<close> is in range whenever it is reached
  (\<open>closer_after_marker\<close>), so the model has no branch for a failed slice. Each round
  removes the lower-case letters of one opening marker and adds none, which bounds the
  number of rounds.
\<close>


lemma Index_Some:
  "Index s sub = Some i \<Longrightarrow> prefix sub (drop i s) \<and> i \<le> length s"
proof (induction s arbitrary: i)
  case Nil
  then show ?case by (auto split: if_splits)
next
  case (Cons c cs)
  show ?case
  proof (cases "prefix sub (c # cs)")
    case True
    with Cons.prems show ?thesis by simp
  next
    case False
    with Cons.prems obtain j where j: "Index cs sub = Some j" "i = Suc j" by auto
    from Cons.IH[OF j(1)] j(2) show ?thesis by simp
  qed
qed



lemma closer_after_marker:
  assumes "Index (''<< parameters.'' @ rest) '' >>'' = Some e"
  shows "14 \<le> e"
  using assms by (auto split: if_splits)

lemma filter_isLower_ToUpper: "filter isLower (ToUpper s) = []"
proof -
  have "\<not> isLower (upperChar c)" for c
  proof -
    have "of_char (char_of ((of_char c :: nat) - 32)) = (of_char c :: nat) - 32"
      if "isLower c"
    proof -
      from that have "(of_char c :: nat) - 32 < 256" unfolding isLower_def by linarith
      then show ?thesis by simp
    qed
    then show ?thesis by (auto simp: upperChar_def isLower_def)
  qed
  then show ?thesis by (simp add: ToUpper_def filter_empty_conv)
qed

lemma marker_split:
  assumes "Index result ''<< parameters.'' = Some start"
  shows "drop start result = ''<< parameters.'' @ drop (start + 14) result"
proof -
  from Index_Some[OF assms] obtain zs where "drop start result = ''<< parameters.'' @ zs"
    by (auto simp: prefix_def)
  moreover have "drop (start + 14) result = drop 14 (drop start result)"
    by (simp add: add.commute)
  ultimately show ?thesis by simp
qed

lemma filter_isLower_drop: "length (filter P (drop n xs)) \<le> length (filter P xs)"
proof -
  have "length (filter P xs) = length (filter P (take n xs)) + length (filter P (drop n xs))"
    by (metis append_take_drop_id filter_append length_append)
  then show ?thesis by simp
qed

lemma convertParameterSyntax_decreases:
  assumes s: "Index result ''<< parameters.'' = Some start"
    and e: "Index (drop start result) '' >>'' = Some e"
  shows "length (filter isLower
           (take start result @ ''{{.'' @ ToUpper p @ ''}}'' @ drop (e + start + 3) result))
         < length (filter isLower result)"
proof -
  note sp = marker_split[OF s]
  from e have "14 \<le> e" unfolding sp by (rule closer_after_marker)
  then have "drop (e + start + 3) result = drop (e + 3 - 14) (drop (start + 14) result)"
    by (simp add: add.commute)
  then have le: "length (filter isLower (drop (e + start + 3) result))
                 \<le> length (filter isLower (drop (start + 14) result))"
    by (simp only: filter_isLower_drop)
  have "filter isLower result = filter isLower (take start result) @ filter isLower (drop start result)"
    by (metis append_take_drop_id filter_append)
  also have "filter isLower (drop start result)
             = filter isLower ''<< parameters.'' @ filter isLower (drop (start + 14) result)"
    by (subst sp) (simp only: filter_append)
  finally have "length (filter isLower result)
                = length (filter isLower (take start result))
                  + length (filter isLower ''<< parameters.'')
                  + length (filter isLower (drop (start + 14) result))"
    by simp
  moreover have "length (filter isLower ''<< parameters.'') = 10"
    by (simp add: isLower_def)
  moreover have "filter isLower ''{{.'' = []" "filter isLower ''}}'' = []"
    by (simp_all add: isLower_def)
  ultimately show ?thesis using le by (simp add: filter_isLower_ToUpper)
qed

function convertParameterSyntax :: "string \<Rightarrow> string" where
  "convertParameterSyntax result =
     (case Index result ''<< parameters.'' of
        None \<Rightarrow> result
      | Some start \<Rightarrow>
          (case Index (drop start result) '' >>'' of
             None \<Rightarrow> result
           | Some e \<Rightarrow>
               (let end = e + start;
                    paramPart = take (end - (start + 14)) (drop (start + 14) result);
                    paramName = ToUpper paramPart
                in convertParameterSyntax
                     (take start result @ ''{{.'' @ paramName @ ''}}'' @ drop (end + 3) result))))"
  by pat_completeness auto
termination
proof (relation "measure (\<lambda>s. length (filter isLower s))", goal_cases)
  case 1
  show ?case by (rule wf_measure)
next
  case (2 result start e end' paramPart paramName)
  show ?case
    unfolding 2(3,5) in_measure
    by (rule convertParameterSyntax_decreases[OF 2(1,2)])
qed

text \<open>The defining equation unfolds without end; it is applied by hand where needed.\<close>

declare convertParameterSyntax.simps [simp del]



section \<open>Pattern analysis\<close>

definition isCommonWord :: "string \<Rightarrow> bool" where
  "isCommonWord word \<longleftrightarrow>
     ToLower word \<in> set [''and'', ''or'', ''the'', ''a'', ''an'',
                         ''with'', ''for'', ''to'', ''of'', ''in'']"

definition generateTaskName :: "string \<Rightarrow> string" where
  "generateTaskName cmd =
     (let words = Fields cmd in
      if words = [] then ''common-task''
      else
        (let parts = filter (\<lambda>word. \<not> HasPrefix word ''-'' \<and> \<not> isCommonWord word) (take 3 words)
         in if parts = [] then ''common-task'' else Join parts ''-''))"

text \<open>The commands of the run steps of a step list, normalised, in the order of the steps.\<close>

definition stepCommands :: "Step list \<Rightarrow> string list" where
  "stepCommands steps =
     map normalizeCommand (filter (\<lambda>cmd. cmd \<noteq> []) (map extractCommand steps))"

text \<open>\<open>commandCounts[normalized]++\<close>\<close>

definition increment :: "string \<Rightarrow> (string \<times> nat) list \<Rightarrow> (string \<times> nat) list" where
  "increment k counts =
     AList.update k (case map_of counts k of None \<Rightarrow> 1 | Some n \<Rightarrow> n + 1) counts"

definition countCommands :: "(string \<times> Job) list \<Rightarrow> (string \<times> nat) list" where
  "countCommands jobs =
     fold (\<lambda>(jobName, job) counts. fold increment (stepCommands (Steps job)) counts) jobs []"

definition patternTask :: "string \<Rightarrow> nat \<Rightarrow> Task" where
  "patternTask cmd cnt =
     \<lparr>Desc = ''Common task - used in '' @ showNat cnt @ '' jobs'',
      Cmds = [cmd], Deps = [], Dir = [], Silent = False, Vars = []\<rparr>"

text \<open>
  \<open>commandCounts\<close> is a map the program builds itself, and the second loop of
  \<open>analyzePatterns\<close> is a \<^verbatim>\<open>range\<close> over it. The order of that \<^verbatim>\<open>range\<close> is a
  parameter \<open>visit\<close> of the model: any function that returns a permutation of the
  entries (\<open>visiting\<close> below) is an order Go may take.
\<close>

definition visiting :: "((string \<times> nat) list \<Rightarrow> (string \<times> nat) list) \<Rightarrow> bool" where
  "visiting visit \<longleftrightarrow> (\<forall>m. mset (visit m) = mset m)"

definition analyzePatterns ::
  "((string \<times> nat) list \<Rightarrow> (string \<times> nat) list) \<Rightarrow> CircleCIConfig \<Rightarrow> (string \<times> Task) list" where
  "analyzePatterns visit config =
     (let commandCounts = countCommands (Jobs config) in
      fold (\<lambda>(cmd, cnt) patterns.
              if cnt \<ge> 2 then AList.update (generateTaskName cmd) (patternTask cmd cnt) patterns
              else patterns)
           (visit commandCounts) [])"

fun findPatternTask :: "string \<Rightarrow> (string \<times> Task) list \<Rightarrow> string" where
  "findPatternTask normalized [] = []"
| "findPatternTask normalized ((taskName, task) # patterns) =
     (case Cmds task of
        c # _ \<Rightarrow> if normalizeCommand c = normalized then taskName
                 else findPatternTask normalized patterns
      | [] \<Rightarrow> findPatternTask normalized patterns)"

section \<open>Jobs and commands to tasks\<close>

definition paramVars :: "(string \<times> yaml) list \<Rightarrow> (string \<times> string) list" where
  "paramVars params =
     fold (\<lambda>(paramName, paramDef) vars.
             case paramDef of
               Map paramMap \<Rightarrow>
                 (let defaultValue = (case map_of paramMap ''default'' of
                                        Some defVal \<Rightarrow> fmtV defVal | None \<Rightarrow> [])
                  in AList.update (ToUpper paramName)
                       (''{{.'' @ ToUpper paramName @ '' | default '' @ [CHR 0x22]
                          @ defaultValue @ [CHR 0x22] @ ''}}'') vars)
             | _ \<Rightarrow> vars)
          params []"

definition generateTaskCallWithParams ::
  "string \<Rightarrow> Step \<Rightarrow> (string \<times> Command) list \<Rightarrow> string" where
  "generateTaskCallWithParams commandName step commands =
     (case step of
        Map stepMap \<Rightarrow>
          (case map_of stepMap commandName of
             Some (Map paramMap) \<Rightarrow>
               (let paramPairs = map (\<lambda>(paramName, paramValue).
                                        ToUpper paramName @ ''='' @ fmtV paramValue) paramMap
                in if paramPairs \<noteq> [] then ''task '' @ commandName @ '' '' @ Join paramPairs '' ''
                   else ''task '' @ commandName)
           | _ \<Rightarrow> ''task '' @ commandName)
      | _ \<Rightarrow> ''task '' @ commandName)"

text \<open>
  One round of the loop of \<open>convertJobToTask\<close> over the steps: the command lines and the
  dependencies so far, and the two after the step.
\<close>

definition jobStep ::
  "(string \<times> Task) list \<Rightarrow> (string \<times> Command) list \<Rightarrow> Step
     \<Rightarrow> string list \<times> string list \<Rightarrow> string list \<times> string list" where
  "jobStep patterns commands step acc =
     (let cmds = fst acc; deps = snd acc; cmd = extractCommand step in
      if cmd \<noteq> [] then
        (let convertedCmd = convertParameterSyntax cmd;
             normalized = normalizeCommand convertedCmd;
             taskName = findPatternTask normalized patterns
         in if taskName \<noteq> [] then (cmds, deps @ [taskName]) else (cmds @ [convertedCmd], deps))
      else
        (case step of
           Str stepStr \<Rightarrow>
             (if map_of commands stepStr \<noteq> None then (cmds, deps @ [stepStr])
              else
                (let converted = convertStepToCommand step in
                 if \<not> Contains converted ''Skipping'' \<and> \<not> Contains converted ''task ''
                 then (cmds @ [converted], deps)
                 else (cmds @ [''# '' @ converted], deps)))
         | _ \<Rightarrow>
             (case isCommandInvocation step of
                (commandName, True) \<Rightarrow>
                  (cmds @ [generateTaskCallWithParams commandName step commands], deps)
              | (_, False) \<Rightarrow>
                  (let converted = convertStepToCommand step in
                   if \<not> Contains converted ''Skipping'' then (cmds @ [converted], deps)
                   else (cmds @ [''# '' @ converted], deps)))))"

definition convertJobToTask ::
  "string \<Rightarrow> Job \<Rightarrow> (string \<times> Task) list \<Rightarrow> (string \<times> Command) list \<Rightarrow> Task" where
  "convertJobToTask jobName job patterns commands =
     (let vars = paramVars (Parameters job);
          (cmds, deps) = fold (jobStep patterns commands) (Steps job) ([], [])
      in \<lparr>Desc = ''Task converted from CircleCI job: '' @ jobName,
          Cmds = cmds, Deps = deps, Dir = [], Silent = False, Vars = vars\<rparr>)"

definition commandStep :: "Step \<Rightarrow> string list \<Rightarrow> string list" where
  "commandStep step cmds =
     (let cmd = extractCommand step in
      if cmd \<noteq> [] then cmds @ [convertParameterSyntax cmd]
      else
        (let converted = convertStepToCommand step in
         if \<not> Contains converted ''Skipping'' then cmds @ [convertParameterSyntax converted]
         else cmds @ [''# '' @ converted]))"

definition commandTask :: "string \<Rightarrow> Command \<Rightarrow> Task" where
  "commandTask commandName command =
     (let vars = paramVars (cmd_Parameters command);
          cmds = fold commandStep (cmd_Steps command) [];
          desc = (if Description command = []
                  then ''Task converted from CircleCI command: '' @ commandName
                  else Description command)
      in \<lparr>Desc = desc, Cmds = cmds, Deps = [], Dir = [], Silent = False, Vars = vars\<rparr>)"

definition convertCommandsToTasks :: "(string \<times> Command) list \<Rightarrow> (string \<times> Task) list" where
  "convertCommandsToTasks commands =
     fold (\<lambda>(commandName, command) tasks.
             AList.update commandName (commandTask commandName command) tasks)
          commands []"

definition cleanTask :: Task where
  "cleanTask =
     \<lparr>Desc = ''Clean local build artifacts'',
      Cmds = [''rm -rf ./workspace ./artifacts ./test-results'',
              ''echo 'Cleaned local CircleCI simulation directories'' @ [CHR 0x27]],
      Deps = [], Dir = [], Silent = False, Vars = []\<rparr>"

definition setupLocalTask :: Task where
  "setupLocalTask =
     \<lparr>Desc = ''Setup local environment for CircleCI simulation'',
      Cmds = [''mkdir -p ./workspace ./artifacts ./test-results'',
              ''echo 'Local CircleCI directories created'' @ [CHR 0x27],
              ''echo 'Note: Some steps are CircleCI-server only and will be skipped''
                @ [CHR 0x27]],
      Deps = [], Dir = [], Silent = False, Vars = []\<rparr>"

definition ciLocalTask :: Task where
  "ciLocalTask =
     \<lparr>Desc = ''Run full CI pipeline locally (where possible)'',
      Cmds = [''echo 'Running local CI simulation...'' @ [CHR 0x27],
              ''echo 'Note: This runs the build logic, but skips server-only features''
                @ [CHR 0x27]],
      Deps = [''setup-local''], Dir = [], Silent = False, Vars = []\<rparr>"

definition addLocalDevTasks :: "(string \<times> Task) list \<Rightarrow> (string \<times> Task) list" where
  "addLocalDevTasks tasks =
     AList.update ''ci-local'' ciLocalTask
       (AList.update ''setup-local'' setupLocalTask
          (AList.update ''clean'' cleanTask tasks))"

section \<open>Environment variables\<close>

text \<open>
  The regular expression of \<open>extractEnvironmentVariables\<close>,
  \<^verbatim>\<open>\$([A-Z_][A-Z0-9_]*)\b|\$\{([A-Z_][A-Z0-9_]*)\}\<close>, written out as a scanner.
  \<open>envMatchAt\<close> looks at the text behind a dollar sign and returns the name and the
  text behind the match. The first alternative takes the longest name and needs a word
  boundary behind it; a shorter name would end between two word characters, so nothing
  is gained by backtracking.
\<close>

definition isNameStart :: "char \<Rightarrow> bool" where
  "isNameStart c \<longleftrightarrow> isUpper c \<or> c = CHR ''_''"

definition isNameChar :: "char \<Rightarrow> bool" where
  "isNameChar c \<longleftrightarrow> isUpper c \<or> isDigit c \<or> c = CHR ''_''"

definition isWordChar :: "char \<Rightarrow> bool" where
  "isWordChar c \<longleftrightarrow> isUpper c \<or> isLower c \<or> isDigit c \<or> c = CHR ''_''"

definition envMatchAt :: "string \<Rightarrow> (string \<times> string) option" where
  "envMatchAt cs =
     (case cs of
        [] \<Rightarrow> None
      | n0 # cs1 \<Rightarrow>
          if isNameStart n0 then
            (case dropWhile isNameChar cs1 of
               [] \<Rightarrow> Some (n0 # takeWhile isNameChar cs1, [])
             | c # rest \<Rightarrow>
                 if isWordChar c then None else Some (n0 # takeWhile isNameChar cs1, c # rest))
          else if n0 = CHR ''{'' then
            (case cs1 of
               [] \<Rightarrow> None
             | m0 # cs2 \<Rightarrow>
                 if isNameStart m0 then
                   (case dropWhile isNameChar cs2 of
                      [] \<Rightarrow> None
                    | c # rest \<Rightarrow>
                        if c = CHR ''}'' then Some (m0 # takeWhile isNameChar cs2, rest) else None)
                 else None)
          else None)"

lemma dropWhile_Cons_shorter: "dropWhile P xs = c # rest \<Longrightarrow> length rest < length xs"
  using length_dropWhile_le[of P xs] by simp

lemma envMatchAt_shorter: "envMatchAt cs = Some (name, rest) \<Longrightarrow> length rest \<le> length cs"
  by (auto simp: envMatchAt_def le_SucI length_dropWhile_le less_imp_le
           split: list.splits if_splits dest!: dropWhile_Cons_shorter)

function FindAllEnv :: "string \<Rightarrow> string list" where
  "FindAllEnv [] = []"
| "FindAllEnv (c # cs) =
     (if c = CHR ''$'' then
        (case envMatchAt cs of
           Some (name, rest) \<Rightarrow> name # FindAllEnv rest
         | None \<Rightarrow> FindAllEnv cs)
      else FindAllEnv cs)"
  by pat_completeness auto
termination
  by (relation "measure length") (auto simp: less_Suc_eq_le dest: envMatchAt_shorter)

definition stepEnvNames :: "Step list \<Rightarrow> string list" where
  "stepEnvNames steps =
     concat (map FindAllEnv (filter (\<lambda>cmd. cmd \<noteq> []) (map extractCommand steps)))"

definition extractEnvironmentVariables :: "CircleCIConfig \<Rightarrow> (string \<times> bool) list" where
  "extractEnvironmentVariables config =
     (let envVars1 = fold (\<lambda>(jobName, job) envVars.
                             fold (\<lambda>name. AList.update name True) (stepEnvNames (Steps job)) envVars)
                          (Jobs config) []
      in fold (\<lambda>(commandName, command) envVars.
                 fold (\<lambda>name. AList.update name True) (stepEnvNames (cmd_Steps command)) envVars)
              (Commands config) envVars1)"

definition circleCIDefaults :: "(string \<times> string) list" where
  "circleCIDefaults =
     [(''CIRCLE_PROJECT_REPONAME'', ''local-repo''),
      (''CIRCLE_PROJECT_USERNAME'', ''local-user''),
      (''CIRCLE_BRANCH'', ''main''),
      (''CIRCLE_BUILD_NUM'', ''1''),
      (''CIRCLE_SHA1'', ''local-sha''),
      (''CIRCLE_WORKING_DIRECTORY'', ''.''),
      (''CIRCLE_TEST_REPORTS'', ''./test-results''),
      (''HOME'', ''$HOME''),
      (''PWD'', ''$PWD''),
      (''NODE_ENV'', ''development''),
      (''AWS_DEFAULT_REGION'', ''us-east-1'')]"

definition envDefault :: "string \<Rightarrow> string" where
  "envDefault envVar =
     (case map_of circleCIDefaults envVar of
        Some defaultValue \<Rightarrow> defaultValue
      | None \<Rightarrow> ''# TODO: Set '' @ envVar @ '' for local development'')"

text \<open>The table that \<open>addLocalEnvDefaults\<close> stores in the field \<open>Env\<close> (none when empty).\<close>

definition addLocalEnvDefaults :: "CircleCIConfig \<Rightarrow> (string \<times> string) list" where
  "addLocalEnvDefaults config =
     fold (\<lambda>(envVar, used) envVars. AList.update envVar (envDefault envVar) envVars)
          (extractEnvironmentVariables config) []"

section \<open>The conversion\<close>

definition minimalJob :: "string \<Rightarrow> Job \<Rightarrow> Job" where
  "minimalJob jobName job =
     (let taskCall = ''task '' @ jobName in
      \<lparr>Executor = Executor job, Docker = Docker job, Machine = Machine job,
       Steps = [Map [(''run'', Str taskCall)]],
       Environment = Nil, Parameters = Parameters job\<rparr>)"

definition convertConfig ::
  "((string \<times> nat) list \<Rightarrow> (string \<times> nat) list) \<Rightarrow> CircleCIConfig \<Rightarrow> CircleCIConfig \<times> Taskfile" where
  "convertConfig visit config =
     (let patterns = analyzePatterns visit config;
          commandTasks = convertCommandsToTasks (Commands config);
          tasks1 = fold (\<lambda>(name, task) tasks. AList.update name task tasks) commandTasks [];
          (newJobs, tasks2) =
            fold (\<lambda>(jobName, job) (newJobs, tasks).
                    (AList.update jobName (minimalJob jobName job) newJobs,
                     AList.update jobName (convertJobToTask jobName job patterns (Commands config))
                       tasks))
                 (Jobs config) ([], tasks1);
          tasks3 = fold (\<lambda>(name, task) tasks. AList.update name task tasks) patterns tasks2;
          tasks4 = addLocalDevTasks tasks3
      in (\<lparr>Version = Version config, Jobs = newJobs, Commands = [],
           Workflows = Workflows config, Executors = Executors config\<rparr>,
          \<lparr>tf_Version = ''3'', Tasks = tasks4, Env = addLocalEnvDefaults config\<rparr>))"

section \<open>Counting the commands\<close>

text \<open>The normalised commands of the run steps of all jobs, and how often one occurs.\<close>

definition jobCommands :: "CircleCIConfig \<Rightarrow> string list" where
  "jobCommands config = concat (map (\<lambda>(jobName, job). stepCommands (Steps job)) (Jobs config))"

definition occurrences :: "CircleCIConfig \<Rightarrow> string \<Rightarrow> nat" where
  "occurrences config cmd = count_list (jobCommands config) cmd"

text \<open>The entries that the second loop of \<open>analyzePatterns\<close> assigns, in the order visited.\<close>

definition patternEntries :: "(string \<times> nat) list \<Rightarrow> (string \<times> Task) list" where
  "patternEntries counts =
     map (\<lambda>(cmd, cnt). (generateTaskName cmd, patternTask cmd cnt))
         (filter (\<lambda>(cmd, cnt). 2 \<le> cnt) counts)"

text \<open>
  The count as the spec words it: over the union of the steps of all jobs and the steps of
  all reusable commands.
\<close>

definition unionCommands :: "CircleCIConfig \<Rightarrow> string list" where
  "unionCommands config =
     jobCommands config
       @ concat (map (\<lambda>(commandName, command). stepCommands (cmd_Steps command)) (Commands config))"

text \<open>
  Two presentations of one input: the same version, workflows and executors, and the same
  jobs and reusable commands, listed (that is, visited) in any two orders.
\<close>

definition sameInput :: "CircleCIConfig \<Rightarrow> CircleCIConfig \<Rightarrow> bool" where
  "sameInput a b \<longleftrightarrow>
     Version a = Version b \<and> mset (Jobs a) = mset (Jobs b) \<and>
     mset (Commands a) = mset (Commands b) \<and>
     Workflows a = Workflows b \<and> Executors a = Executors b"

section \<open>Example configurations\<close>

text \<open>The eight keys that the switch of \<open>convertStepToCommand\<close> knows.\<close>

definition structuralSteps :: "string list" where
  "structuralSteps =
     [''checkout'', ''setup_remote_docker'', ''save_cache'', ''restore_cache'',
      ''persist_to_workspace'', ''attach_workspace'', ''store_artifacts'',
      ''store_test_results'']"

text \<open>The names of the three tasks that \<open>addLocalDevTasks\<close> always enters.\<close>

definition fixedTasks :: "string list" where
  "fixedTasks = [''clean'', ''setup-local'', ''ci-local'']"

text \<open>The default expression that \<open>paramVars\<close> stores for a parameter.\<close>

definition defaultExpr :: "string \<Rightarrow> string \<Rightarrow> string" where
  "defaultExpr name defaultValue =
     ''{{.'' @ name @ '' | default '' @ [CHR 0x22] @ defaultValue @ [CHR 0x22] @ ''}}''"

text \<open>The configurations at which the theorems below are evaluated.\<close>

definition scenario :: CircleCIConfig where
  "scenario =
     \<lparr>Version = ''2.1'',
      Jobs = [(''release'',
               \<lparr>Executor = Nil, Docker = [\<lparr>Image = ''cimg/base:stable''\<rparr>], Machine = Nil,
                Steps = [Str ''checkout'',
                         Map [(''deploy'', Map [(''target'', Str ''staging'')])]],
                Environment = Nil, Parameters = []\<rparr>)],
      Commands = [(''deploy'',
               \<lparr>Description = [],
                cmd_Parameters = [(''target'', Map [(''type'', Str ''string''),
                                                    (''default'', Str ''production'')])],
                cmd_Steps = [Map [(''run'', Str ''./deploy.sh << parameters.target >>'')]]\<rparr>)],
      Workflows = [], Executors = []\<rparr>"

definition envJob :: Job where
  "envJob =
     \<lparr>Executor = Str ''default'', Docker = [], Machine = Nil,
      Steps = [Str ''checkout'', Map [(''run'', Str ''make deploy'')]],
      Environment = Map [(''STAGE'', Str ''prod'')], Parameters = []\<rparr>"

definition envConfig :: CircleCIConfig where
  "envConfig =
     \<lparr>Version = ''2.1'', Jobs = [(''deploy'', envJob)], Commands = [],
      Workflows = [], Executors = []\<rparr>"

definition cleanJob :: Job where
  "cleanJob =
     \<lparr>Executor = Nil, Docker = [], Machine = Nil,
      Steps = [Map [(''run'', Str ''make clean'')]],
      Environment = Nil, Parameters = []\<rparr>"

definition cleanConfig :: CircleCIConfig where
  "cleanConfig =
     \<lparr>Version = ''2.1'', Jobs = [(''clean'', cleanJob)],
      Commands = [(''build'', \<lparr>Description = [], cmd_Parameters = [],
                               cmd_Steps = [Map [(''run'', Str ''make'')]]\<rparr>)],
      Workflows = [], Executors = []\<rparr>"

definition sharedJob :: "string \<Rightarrow> Job" where
  "sharedJob lastCmd =
     \<lparr>Executor = Nil, Docker = [\<lparr>Image = ''node:16''\<rparr>], Machine = Nil,
      Steps = [Str ''checkout'', Map [(''run'', Str ''npm install'')], Map [(''run'', Str lastCmd)]],
      Environment = Nil, Parameters = []\<rparr>"

definition sharedConfig :: CircleCIConfig where
  "sharedConfig =
     \<lparr>Version = ''2.1'',
      Jobs = [(''build'', sharedJob ''npm run build''), (''test'', sharedJob ''npm test'')],
      Commands = [], Workflows = [], Executors = []\<rparr>"

definition cleanCommandConfig :: CircleCIConfig where
  "cleanCommandConfig =
     \<lparr>Version = ''2.1'',
      Jobs = [(''release'',
               \<lparr>Executor = Nil, Docker = [], Machine = Nil,
                Steps = [Map [(''clean'', Map [(''target'', Str ''staging'')])]],
                Environment = Nil, Parameters = []\<rparr>)],
      Commands = [(''clean'',
               \<lparr>Description = [],
                cmd_Parameters = [(''target'', Map [(''type'', Str ''string''),
                                                    (''default'', Str ''production'')])],
                cmd_Steps = [Map [(''run'', Str ''./clean.sh << parameters.target >>'')]]\<rparr>)],
      Workflows = [], Executors = []\<rparr>"

definition unionConfig :: CircleCIConfig where
  "unionConfig =
     \<lparr>Version = ''2.1'',
      Jobs = [(''build'',
               \<lparr>Executor = Nil, Docker = [], Machine = Nil,
                Steps = [Map [(''run'', Str ''npm install'')], Map [(''run'', Str ''npm run build'')]],
                Environment = Nil, Parameters = []\<rparr>)],
      Commands = [(''prepare'',
               \<lparr>Description = [], cmd_Parameters = [],
                cmd_Steps = [Map [(''run'', Str ''npm install'')]]\<rparr>)],
      Workflows = [], Executors = []\<rparr>"

definition collideJob :: Job where
  "collideJob =
     \<lparr>Executor = Nil, Docker = [], Machine = Nil,
      Steps = [Map [(''run'', Str ''npm run build --prod'')],
               Map [(''run'', Str ''npm run build --dev'')]],
      Environment = Nil, Parameters = []\<rparr>"

definition collideConfig :: CircleCIConfig where
  "collideConfig =
     \<lparr>Version = ''2.1'', Jobs = [(''build'', collideJob), (''check'', collideJob)],
      Commands = [], Workflows = [], Executors = []\<rparr>"

section \<open>Normalisation\<close>

lemma ReplaceAll_char:
  "ReplaceAll s [c] [d] = map (\<lambda>x. if x = c then d else x) s"
  by (induction s) auto

lemma Fields_map:
  assumes "\<And>x. isSpace (f x) = isSpace x" and "\<And>x. \<not> isSpace x \<Longrightarrow> f x = x"
  shows "Fields (map f s) = Fields s"
proof (induction s rule: Fields.induct)
  case 1
  show ?case by simp
next
  case (2 c cs)
  have tw: "takeWhile (\<lambda>x. \<not> isSpace x) (map f cs) = takeWhile (\<lambda>x. \<not> isSpace x) cs"
    by (induction cs) (auto simp: assms)
  have dw: "dropWhile (\<lambda>x. \<not> isSpace x) (map f cs) = map f (dropWhile (\<lambda>x. \<not> isSpace x) cs)"
    by (induction cs) (auto simp: assms)
  show ?case
  proof (cases "isSpace c")
    case True
    with 2 show ?thesis by (simp add: assms)
  next
    case False
    with 2 show ?thesis by (simp add: assms tw dw)
  qed
qed

lemma Fields_dropWhile: "Fields (dropWhile isSpace s) = Fields s"
  by (induction s) auto

lemma Fields_append_spaces:
  "\<forall>c \<in> set ws. isSpace c \<Longrightarrow> Fields (xs @ ws) = Fields xs"
proof (induction xs rule: Fields.induct)
  case 1
  then show ?case by (induction ws) auto
next
  case (2 c cs)
  show ?case
  proof (cases "isSpace c")
    case True
    with 2 show ?thesis by simp
  next
    case False
    show ?thesis
    proof (cases "\<forall>x \<in> set cs. \<not> isSpace x")
      case True
      have sp: "Fields ws = []" using 2(3) by (induction ws) auto
      have t1: "takeWhile (\<lambda>x. \<not> isSpace x) (cs @ ws) = cs @ takeWhile (\<lambda>x. \<not> isSpace x) ws"
        using True by (simp add: takeWhile_append2)
      have t2: "takeWhile (\<lambda>x. \<not> isSpace x) ws = []"
        using 2(3) by (cases ws) auto
      have d1: "dropWhile (\<lambda>x. \<not> isSpace x) (cs @ ws) = dropWhile (\<lambda>x. \<not> isSpace x) ws"
        using True by (simp add: dropWhile_append2)
      have d2: "dropWhile (\<lambda>x. \<not> isSpace x) ws = ws"
        using 2(3) by (cases ws) auto
      have d3: "dropWhile (\<lambda>x. \<not> isSpace x) cs = []" using True by simp
      have t3: "takeWhile (\<lambda>x. \<not> isSpace x) cs = cs" using True by simp
      from False show ?thesis by (simp add: t1 t2 d1 d2 d3 t3 sp)
    next
      case F2: False
      then obtain x where x: "x \<in> set cs" "isSpace x" by blast
      then have t1: "takeWhile (\<lambda>x. \<not> isSpace x) (cs @ ws) = takeWhile (\<lambda>x. \<not> isSpace x) cs"
        by (intro takeWhile_append1[of x]) auto
      from x have d1: "dropWhile (\<lambda>x. \<not> isSpace x) (cs @ ws) = dropWhile (\<lambda>x. \<not> isSpace x) cs @ ws"
        by (intro dropWhile_append1[of x]) auto
      from False 2(2)[OF False 2(3)] show ?thesis by (simp add: t1 d1)
    qed
  qed
qed

lemma Fields_TrimSpace: "Fields (TrimSpace s) = Fields s"
proof -
  let ?t = "dropWhile isSpace s"
  have split: "?t = rev (dropWhile isSpace (rev ?t)) @ rev (takeWhile isSpace (rev ?t))"
    by (metis rev_append rev_rev_ident takeWhile_dropWhile_id)
  have "\<forall>c \<in> set (rev (takeWhile isSpace (rev ?t))). isSpace c"
    by (auto dest: set_takeWhileD)
  from Fields_append_spaces[OF this, of "rev (dropWhile isSpace (rev ?t))"] split
  have "Fields (rev (dropWhile isSpace (rev ?t))) = Fields ?t" by simp
  then show ?thesis by (simp add: TrimSpace_def Fields_dropWhile)
qed

lemma normalizeCommand_Fields: "normalizeCommand s = Join (Fields s) '' ''"
proof -
  have "Fields (ReplaceAll (TrimSpace s) [CHR 0x0A] '' '') = Fields (TrimSpace s)"
    unfolding ReplaceAll_char by (rule Fields_map) (auto simp: isSpace_def)
  then show ?thesis by (simp add: normalizeCommand_def Fields_TrimSpace)
qed

lemma Fields_words: "w \<in> set (Fields s) \<Longrightarrow> token w"
proof (induction s rule: Fields.induct)
  case 1
  then show ?case by simp
next
  case (2 c cs)
  show ?case
  proof (cases "isSpace c")
    case True
    with 2 show ?thesis by simp
  next
    case False
    have "token (c # takeWhile (\<lambda>x. \<not> isSpace x) cs)"
      using False by (auto simp: token_def dest: set_takeWhileD)
    with False 2 show ?thesis by auto
  qed
qed

lemma Fields_word_append:
  assumes "token w"
  shows "Fields (w @ CHR '' '' # rest) = w # Fields rest" and "Fields w = [w]"
proof -
  obtain c cs where w: "w = c # cs" using assms by (cases w) (auto simp: token_def)
  have ns: "\<forall>x \<in> set cs. \<not> isSpace x" "\<not> isSpace c" using assms w by (auto simp: token_def)
  have sp: "isSpace (CHR '' '')" by (simp add: isSpace_def)
  have t: "takeWhile (\<lambda>x. \<not> isSpace x) (cs @ CHR '' '' # rest) = cs"
    using ns sp by (simp add: takeWhile_append2)
  have d: "dropWhile (\<lambda>x. \<not> isSpace x) (cs @ CHR '' '' # rest) = CHR '' '' # rest"
    using ns sp by (simp add: dropWhile_append2)
  show "Fields (w @ CHR '' '' # rest) = w # Fields rest"
    using ns sp by (simp add: w t d)
  have d0: "dropWhile (\<lambda>x. \<not> isSpace x) cs = []" and t0: "takeWhile (\<lambda>x. \<not> isSpace x) cs = cs"
    using ns by auto
  show "Fields w = [w]" using ns(2) by (simp add: w d0 t0)
qed

lemma Fields_Join: "\<forall>w \<in> set ws. token w \<Longrightarrow> Fields (Join ws '' '') = ws"
  by (induction ws "'' ''" rule: Join.induct) (auto simp: Fields_word_append)

lemma Fields_normalizeCommand: "Fields (normalizeCommand s) = Fields s"
proof -
  have "\<forall>w \<in> set (Fields s). token w" by (blast intro: Fields_words)
  then have "Fields (Join (Fields s) '' '') = Fields s" by (rule Fields_Join)
  then show ?thesis by (simp only: normalizeCommand_Fields)
qed

lemma normalizeCommand_idem: "normalizeCommand (normalizeCommand s) = normalizeCommand s"
  by (simp only: normalizeCommand_Fields[of "normalizeCommand s"] Fields_normalizeCommand)
     (simp only: normalizeCommand_Fields)

text \<open>
  C4. Normalising is idempotent, and two texts with the same sequence of tokens (the
  white-space-separated fields), whatever white space and line breaks lie around and
  between the tokens, have the same normal form.
\<close>

theorem normalizeCommand_idempotent_layout_invariant:
  "normalizeCommand (normalizeCommand s) = normalizeCommand s \<and>
   (Fields s = Fields t \<longrightarrow> normalizeCommand s = normalizeCommand t)"
  by (simp only: normalizeCommand_idem) (simp only: normalizeCommand_Fields, simp)

theorem normalizeCommand_idempotent_layout_invariant_witness:
  "Fields [CHR '' '', CHR ''a'', CHR 0x0A, CHR 0x09, CHR ''b'', CHR 0x0A] = Fields ''a b'' \<and>
   normalizeCommand [CHR '' '', CHR ''a'', CHR 0x0A, CHR 0x09, CHR ''b'', CHR 0x0A] = ''a b'' \<and>
   normalizeCommand ''a b'' = ''a b''"
  using normalizeCommand_idempotent_layout_invariant
          [of "[CHR '' '', CHR ''a'', CHR 0x0A, CHR 0x09, CHR ''b'', CHR 0x0A]" "''a b''"]
  by (simp add: normalizeCommand_def TrimSpace_def isSpace_def)

lemma map_of_fold_update:
  "map_of (fold (\<lambda>(k, v) m. AList.update k (f k v) m) xs m) n =
     (case map_of (rev xs) n of Some v \<Rightarrow> Some (f n v) | None \<Rightarrow> map_of m n)"
proof (induction xs arbitrary: m)
  case Nil
  show ?case by simp
next
  case (Cons x xs)
  obtain k v where x: "x = (k, v)" by (cases x)
  show ?case
    by (simp add: x Cons.IH update_conv' map_add_def split: option.splits)
qed

lemma fold_pair:
  "fold (\<lambda>(k, v) (a, b). (F k v a, G k v b)) xs (a0, b0) =
     (fold (\<lambda>(k, v) a. F k v a) xs a0, fold (\<lambda>(k, v) b. G k v b) xs b0)"
  by (induction xs arbitrary: a0 b0) auto

lemma convertConfig_Jobs:
  "Jobs (fst (convertConfig visit config)) =
     fold (\<lambda>(jobName, job) newJobs. AList.update jobName (minimalJob jobName job) newJobs)
          (Jobs config) []"
  by (simp add: convertConfig_def Let_def fold_pair)

lemma convertConfig_Tasks:
  "Tasks (snd (convertConfig visit config)) =
     addLocalDevTasks
       (fold (\<lambda>(name, task) tasks. AList.update name task tasks) (analyzePatterns visit config)
          (fold (\<lambda>(jobName, job) tasks.
                   AList.update jobName
                     (convertJobToTask jobName job (analyzePatterns visit config) (Commands config))
                     tasks)
                (Jobs config)
                (fold (\<lambda>(name, task) tasks. AList.update name task tasks)
                      (convertCommandsToTasks (Commands config)) [])))"
  by (simp add: convertConfig_def Let_def fold_pair)

lemma map_of_rev_in_set: "map_of (rev xs) k = Some v \<Longrightarrow> (k, v) \<in> set xs"
  by (drule map_of_SomeD) simp

lemma map_of_rev_None: "map_of (rev xs) k = None \<longleftrightarrow> k \<notin> fst ` set xs"
  by (simp add: map_of_eq_None_iff)

lemma map_of_rev_distinct: "distinct (map fst xs) \<Longrightarrow> map_of (rev xs) = map_of xs"
  by (rule map_of_inject_set[THEN iffD2]) (simp_all add: rev_map[symmetric])

section \<open>The minimised configuration\<close>

text \<open>
  C2. For every job of the input, whatever order the jobs and the command counts are
  visited in, the minimised configuration has a job of the same name whose step list is
  exactly one run step with the text \<^verbatim>\<open>task <job-name>\<close>.
\<close>

theorem minimized_job_single_task_step:
  assumes "(jobName, job) \<in> set (Jobs config)"
  shows "\<exists>newJob. map_of (Jobs (fst (convertConfig visit config))) jobName = Some newJob
           \<and> Steps newJob = [Map [(''run'', Str (''task '' @ jobName))]]
           \<and> map extractCommand (Steps newJob) = [''task '' @ jobName]"
proof -
  from assms have "jobName \<in> fst ` set (Jobs config)" by force
  then obtain j where j: "map_of (rev (Jobs config)) jobName = Some j"
    using map_of_rev_None[of "Jobs config" jobName] by (cases "map_of (rev (Jobs config)) jobName") auto
  have "map_of (Jobs (fst (convertConfig visit config))) jobName = Some (minimalJob jobName j)"
    by (simp add: convertConfig_Jobs map_of_fold_update j)
  then show ?thesis by (simp add: minimalJob_def extractCommand_def)
qed

theorem minimized_job_single_task_step_witness:
  "(''release'', snd (hd (Jobs scenario))) \<in> set (Jobs scenario) \<and>
   (\<exists>newJob. map_of (Jobs (fst (convertConfig id scenario))) ''release'' = Some newJob
           \<and> Steps newJob = [Map [(''run'', Str ''task release'')]]
           \<and> map extractCommand (Steps newJob) = [''task release''])"
  using minimized_job_single_task_step[of "''release''" "snd (hd (Jobs scenario))" scenario id]
  by (simp add: scenario_def)

text \<open>
  C7, as the code has it. The job written to the minimised configuration is the input
  job with its steps replaced by the single task call: executor, docker, machine and
  parameter declarations are the input's; the field \<open>Environment\<close> is not among the
  fields \<open>convertConfig\<close> copies, so the new job has none.
\<close>

theorem minimized_job_frame:
  assumes "distinct (map fst (Jobs config))" and "(jobName, job) \<in> set (Jobs config)"
  shows "map_of (Jobs (fst (convertConfig visit config))) jobName =
           Some (job\<lparr>Steps := [Map [(''run'', Str (''task '' @ jobName))]], Environment := Nil\<rparr>)"
proof -
  from assms have "map_of (rev (Jobs config)) jobName = Some job"
    by (simp add: map_of_rev_distinct)
  then have "map_of (Jobs (fst (convertConfig visit config))) jobName = Some (minimalJob jobName job)"
    by (simp add: convertConfig_Jobs map_of_fold_update)
  then show ?thesis by (simp add: minimalJob_def)
qed

text \<open>A job with an environment: the minimised job has lost it.\<close>

theorem minimized_job_frame_witness:
  "distinct (map fst (Jobs envConfig)) \<and> (''deploy'', envJob) \<in> set (Jobs envConfig) \<and>
   map_of (Jobs (fst (convertConfig id envConfig))) ''deploy'' =
     Some (envJob\<lparr>Steps := [Map [(''run'', Str ''task deploy'')]], Environment := Nil\<rparr>)"
  using minimized_job_frame[of envConfig "''deploy''" envJob id]
  by (simp add: envConfig_def)

theorem environment_not_passed_through:
  "map_option Environment (map_of (Jobs envConfig) ''deploy'') = Some (Map [(''STAGE'', Str ''prod'')]) \<and>
   map_option Environment (map_of (Jobs (fst (convertConfig id envConfig))) ''deploy'') = Some Nil"
  by code_simp

section \<open>Assembling the task mapping\<close>

lemma map_of_addLocalDevTasks:
  "map_of (addLocalDevTasks tasks) name =
     (if name = ''ci-local'' then Some ciLocalTask
      else if name = ''setup-local'' then Some setupLocalTask
      else if name = ''clean'' then Some cleanTask
      else map_of tasks name)"
  by (simp add: addLocalDevTasks_def update_conv')

lemma map_of_convertCommandsToTasks:
  "map_of (convertCommandsToTasks commands) name =
     map_option (commandTask name) (map_of (rev commands) name)"
  by (simp add: convertCommandsToTasks_def map_of_fold_update split: option.splits)

lemma distinct_fold_update:
  "distinct (map fst m) \<Longrightarrow> distinct (map fst (fold (\<lambda>(k, v) m. AList.update k (f k v) m) xs m))"
  by (induction xs arbitrary: m) (auto simp: distinct_update)

lemma distinct_convertCommandsToTasks: "distinct (map fst (convertCommandsToTasks commands))"
  by (simp add: convertCommandsToTasks_def distinct_fold_update)

lemma map_of_fold_update_plain:
  "map_of (fold (\<lambda>(k, v) m. AList.update k v m) xs m) n =
     (case map_of (rev xs) n of Some v \<Rightarrow> Some v | None \<Rightarrow> map_of m n)"
  using map_of_fold_update[where f = "\<lambda>k v. v"] .

lemma Tasks_lookup:
  "map_of (Tasks (snd (convertConfig visit config))) name =
     (if name = ''ci-local'' then Some ciLocalTask
      else if name = ''setup-local'' then Some setupLocalTask
      else if name = ''clean'' then Some cleanTask
      else
        (case map_of (rev (analyzePatterns visit config)) name of
           Some task \<Rightarrow> Some task
         | None \<Rightarrow>
             (case map_of (rev (Jobs config)) name of
                Some job \<Rightarrow>
                  Some (convertJobToTask name job (analyzePatterns visit config) (Commands config))
              | None \<Rightarrow> map_option (commandTask name) (map_of (rev (Commands config)) name))))"
proof -
  have c: "map_of (rev (convertCommandsToTasks (Commands config))) name
           = map_option (commandTask name) (map_of (rev (Commands config)) name)"
    by (simp add: map_of_rev_distinct distinct_convertCommandsToTasks map_of_convertCommandsToTasks)
  show ?thesis
    unfolding convertConfig_Tasks map_of_addLocalDevTasks
    by (simp only: map_of_fold_update_plain map_of_fold_update c) (simp split: option.splits)
qed

lemma distinct_analyzePatterns: "distinct (map fst (analyzePatterns visit config))"
proof -
  have "distinct (map fst (fold (\<lambda>(cmd, cnt) patterns.
              if cnt \<ge> 2 then AList.update (generateTaskName cmd) (patternTask cmd cnt) patterns
              else patterns) xs m))" if "distinct (map fst m)" for xs and m :: "(string \<times> Task) list"
    using that by (induction xs arbitrary: m) (auto simp: distinct_update)
  then show ?thesis by (simp add: analyzePatterns_def Let_def)
qed

text \<open>
  C8, as the code has it. The task mapping is filled in the order: tasks of the reusable
  commands, tasks of the jobs, pattern tasks, the three fixed tasks; every entry is a
  plain assignment, so on a collision of names the later entry replaces the earlier one.
  Looking a name up therefore finds the fixed task if the name is one of the three, else
  the pattern task, else the job's task, else the command's task.
\<close>

theorem task_merge_later_overwrites:
  assumes "distinct (map fst (Jobs config))" and "distinct (map fst (Commands config))"
  shows "map_of (Tasks (snd (convertConfig visit config))) name =
     (if name = ''ci-local'' then Some ciLocalTask
      else if name = ''setup-local'' then Some setupLocalTask
      else if name = ''clean'' then Some cleanTask
      else
        (case map_of (analyzePatterns visit config) name of
           Some task \<Rightarrow> Some task
         | None \<Rightarrow>
             (case map_of (Jobs config) name of
                Some job \<Rightarrow>
                  Some (convertJobToTask name job (analyzePatterns visit config) (Commands config))
              | None \<Rightarrow> map_option (commandTask name) (map_of (Commands config) name))))"
  using assms
  by (simp only: Tasks_lookup map_of_rev_distinct distinct_analyzePatterns)

theorem task_merge_later_overwrites_witness:
  "distinct (map fst (Jobs cleanConfig)) \<and> distinct (map fst (Commands cleanConfig)) \<and>
   map_of (Tasks (snd (convertConfig id cleanConfig))) ''clean'' = Some cleanTask \<and>
   map_option Cmds (map_of (Tasks (snd (convertConfig id cleanConfig))) ''build'') = Some [''make'']"
proof -
  have a: "analyzePatterns id cleanConfig = []" by code_simp
  have c: "map_option Cmds (map_option (commandTask ''build'') (map_of (Commands cleanConfig) ''build''))
           = Some [''make'']" by code_simp
  have d: "distinct (map fst (Jobs cleanConfig))" "distinct (map fst (Commands cleanConfig))"
    by (simp_all add: cleanConfig_def)
  have j: "map_of (Jobs cleanConfig) ''build'' = None" by (simp add: cleanConfig_def)
  show ?thesis
    using task_merge_later_overwrites[OF d, of id "''clean''"]
          task_merge_later_overwrites[OF d, of id "''build''"] c
    by (simp add: a d j)
qed

text \<open>A job called \<open>clean\<close>: its task is entered first and replaced by the fixed task.\<close>

theorem job_task_overwritten_by_fixed_task:
  "map_option Cmds (map_of (Tasks (snd (convertConfig id cleanConfig))) ''clean'') = Some (Cmds cleanTask) \<and>
   Cmds (convertJobToTask ''clean'' cleanJob (analyzePatterns id cleanConfig) (Commands cleanConfig))
     = [''make clean''] \<and>
   Cmds cleanTask \<noteq> [''make clean'']"
  by code_simp

lemma visiting_Nil:
  assumes "visiting visit"
  shows "visit [] = []"
proof -
  from assms have "mset (visit []) = mset []" unfolding visiting_def by blast
  then show ?thesis by simp
qed

section \<open>Rendering a step\<close>

text \<open>
  C10, as the code has it. \<open>convertStepToCommand\<close> is total, and its result is empty in
  exactly one case: the step is a mapping whose first visited entry has a key that is
  none of the eight structural step names and the empty string as its value (the
  branch for custom steps returns a string value as it is).
\<close>

theorem convertStepToCommand_empty_iff:
  "convertStepToCommand step = [] \<longleftrightarrow>
     (\<exists>key rest. step = Map ((key, Str []) # rest) \<and> key \<notin> set structuralSteps)"
  by (auto simp: convertStepToCommand_def structuralSteps_def
           split: yaml.splits list.splits option.splits)

theorem convertStepToCommand_empty_iff_witness:
  "convertStepToCommand (Map []) \<noteq> [] \<and> convertStepToCommand (Str []) \<noteq> [] \<and>
   convertStepToCommand (Map [(''save_cache'', Str [])]) \<noteq> []"
  using convertStepToCommand_empty_iff[of "Map []"] convertStepToCommand_empty_iff[of "Str []"]
        convertStepToCommand_empty_iff[of "Map [(''save_cache'', Str [])]"]
  by (simp add: structuralSteps_def)

text \<open>A run step with an empty command is rendered as the empty line.\<close>

theorem empty_run_step_gives_empty_line:
  "convertStepToCommand (Map [(''run'', Str [])]) = [] \<and>
   Cmds (convertJobToTask ''build''
          \<lparr>Executor = Nil, Docker = [], Machine = Nil, Steps = [Map [(''run'', Str [])]],
           Environment = Nil, Parameters = []\<rparr> [] []) = [[]]"
  by code_simp

section \<open>Dependencies\<close>

lemma findPatternTask_in:
  "findPatternTask normalized patterns \<noteq> [] \<Longrightarrow>
     findPatternTask normalized patterns \<in> fst ` set patterns"
  by (induction normalized patterns rule: findPatternTask.induct)
     (auto split: list.splits if_splits)

lemma jobStep_deps:
  "snd (jobStep patterns commands step acc) = snd acc \<or>
   (\<exists>dep. snd (jobStep patterns commands step acc) = snd acc @ [dep]
          \<and> dep \<in> fst ` set patterns \<union> fst ` set commands)"
proof (cases "extractCommand step = []")
  case False
  then show ?thesis
    using findPatternTask_in[of "normalizeCommand (convertParameterSyntax (extractCommand step))" patterns]
    by (simp add: jobStep_def Let_def)
next
  case True
  have c: "map_of commands s \<noteq> None \<Longrightarrow> s \<in> fst ` set commands" for s
    by (simp add: map_of_eq_None_iff)
  show ?thesis
  proof (cases step)
    case (Str s)
    with True c[of s] show ?thesis by (simp add: jobStep_def Let_def)
  next
    case Nil
    with True show ?thesis
      by (cases "isCommandInvocation step") (simp add: jobStep_def Let_def split: bool.splits)
  next
    case (Map m)
    with True show ?thesis
      by (cases "isCommandInvocation step") (simp add: jobStep_def Let_def split: bool.splits)
  next
    case (Seq xs)
    with True show ?thesis
      by (cases "isCommandInvocation step") (simp add: jobStep_def Let_def split: bool.splits)
  next
    case (Scalar v s)
    with True show ?thesis
      by (cases "isCommandInvocation step") (simp add: jobStep_def Let_def split: bool.splits)
  qed
qed

lemma fold_jobStep_deps:
  "set (snd (fold (jobStep patterns commands) steps acc))
     \<subseteq> set (snd acc) \<union> (fst ` set patterns \<union> fst ` set commands)"
proof (induction steps arbitrary: acc)
  case Nil
  show ?case by auto
next
  case (Cons step steps)
  let ?acc = "jobStep patterns commands step acc"
  let ?N = "fst ` set patterns \<union> fst ` set commands"
  from jobStep_deps[of patterns commands step acc]
  consider "snd ?acc = snd acc" | dep where "snd ?acc = snd acc @ [dep]" "dep \<in> ?N"
    by blast
  then have "set (snd ?acc) \<subseteq> set (snd acc) \<union> ?N"
  proof cases
    case 1
    then show ?thesis by simp
  next
    case 2
    then show ?thesis by simp
  qed
  moreover from Cons.IH[of ?acc]
  have "set (snd (fold (jobStep patterns commands) (step # steps) acc)) \<subseteq> set (snd ?acc) \<union> ?N"
    by simp
  ultimately show ?case by blast
qed

lemma convertJobToTask_deps:
  "set (Deps (convertJobToTask jobName job patterns commands))
     \<subseteq> fst ` set patterns \<union> fst ` set commands"
proof -
  obtain cmds deps where f: "fold (jobStep patterns commands) (Steps job) ([], []) = (cmds, deps)"
    by (cases "fold (jobStep patterns commands) (Steps job) ([], [])")
  from fold_jobStep_deps[of patterns commands "Steps job" "([], [])"] f
  show ?thesis by (simp add: convertJobToTask_def Let_def)
qed

lemma in_set_updateD: "(n, t) \<in> set (AList.update k v m) \<Longrightarrow> (n, t) = (k, v) \<or> (n, t) \<in> set m"
  by (induction m) (auto split: if_splits)

lemma analyzePatterns_entries:
  assumes "(name, task) \<in> set (analyzePatterns visit config)"
  shows "\<exists>cmd cnt. task = patternTask cmd cnt"
proof -
  have "\<forall>p \<in> set (fold (\<lambda>(cmd, cnt) patterns.
              if cnt \<ge> 2 then AList.update (generateTaskName cmd) (patternTask cmd cnt) patterns
              else patterns) xs m). \<exists>cmd cnt. snd p = patternTask cmd cnt"
    if "\<forall>p \<in> set m. \<exists>cmd cnt. snd p = patternTask cmd cnt"
    for xs and m :: "(string \<times> Task) list"
    using that
  proof (induction xs arbitrary: m)
    case Nil
    then show ?case by simp
  next
    case (Cons x xs)
    obtain cmd cnt where x: "x = (cmd, cnt)" by (cases x)
    have "\<forall>p \<in> set (AList.update (generateTaskName cmd) (patternTask cmd cnt) m).
            \<exists>cmd cnt. snd p = patternTask cmd cnt"
    proof
      fix p
      assume "p \<in> set (AList.update (generateTaskName cmd) (patternTask cmd cnt) m)"
      then have "p = (generateTaskName cmd, patternTask cmd cnt) \<or> p \<in> set m"
        using in_set_updateD[of "fst p" "snd p"] by simp
      then show "\<exists>cmd cnt. snd p = patternTask cmd cnt"
        using Cons.prems by (cases "p \<in> set m") (simp, fastforce)
    qed
    with Cons.IH Cons.prems show ?case by (simp add: x)
  qed
  from this[of "[]"] assms show ?thesis
    by (fastforce simp: analyzePatterns_def Let_def)
qed

lemma map_of_rev_Some_iff: "k \<in> fst ` set xs \<Longrightarrow> \<exists>v. map_of (rev xs) k = Some v"
  using map_of_rev_None[of xs k] by (cases "map_of (rev xs) k") auto

text \<open>
  C3. In the task mapping of the output, every name in the dependency list of any task
  is itself a key of the mapping: the dependencies of a job's task are names of pattern
  tasks and of reusable commands, \<open>ci-local\<close> depends on \<open>setup-local\<close>, and no
  other task has a dependency. This holds for every input and every visiting order.
\<close>

theorem no_dangling_dependencies:
  assumes "map_of (Tasks (snd (convertConfig visit config))) name = Some task"
    and "dep \<in> set (Deps task)"
  shows "map_of (Tasks (snd (convertConfig visit config))) dep \<noteq> None"
proof -
  let ?patterns = "analyzePatterns visit config"
  have present: "map_of (Tasks (snd (convertConfig visit config))) d \<noteq> None"
    if "d = ''setup-local'' \<or> d \<in> fst ` set ?patterns \<or> d \<in> fst ` set (Commands config)" for d
  proof -
    from that consider "d = ''setup-local''" | "d \<in> fst ` set ?patterns"
      | "d \<in> fst ` set (Commands config)" by blast
    then show ?thesis
    proof cases
      case 1
      then show ?thesis by (simp add: Tasks_lookup)
    next
      case 2
      from map_of_rev_Some_iff[OF 2] obtain v where "map_of (rev ?patterns) d = Some v" ..
      then show ?thesis by (simp add: Tasks_lookup)
    next
      case 3
      from map_of_rev_Some_iff[OF 3] obtain v where "map_of (rev (Commands config)) d = Some v" ..
      then show ?thesis by (simp add: Tasks_lookup split: option.splits)
    qed
  qed
  have fixed: "Deps ciLocalTask = [''setup-local'']" "Deps setupLocalTask = []" "Deps cleanTask = []"
    by (simp_all add: ciLocalTask_def setupLocalTask_def cleanTask_def)
  have shape: "task = ciLocalTask \<or> task = setupLocalTask \<or> task = cleanTask
      \<or> (name, task) \<in> set ?patterns
      \<or> (\<exists>job. task = convertJobToTask name job ?patterns (Commands config))
      \<or> (\<exists>command. task = commandTask name command)"
  proof (cases "name = ''ci-local'' \<or> name = ''setup-local'' \<or> name = ''clean''")
    case True
    with assms(1) show ?thesis unfolding Tasks_lookup by (auto split: if_splits)
  next
    case False
    show ?thesis
    proof (cases "map_of (rev ?patterns) name")
      case (Some t)
      with False assms(1) have "t = task" by (simp add: Tasks_lookup)
      with Some map_of_rev_in_set[of ?patterns name t] show ?thesis by simp
    next
      case None
      show ?thesis
      proof (cases "map_of (rev (Jobs config)) name")
        case (Some job)
        with None False assms(1) show ?thesis by (auto simp: Tasks_lookup)
      next
        case N2: None
        with None False assms(1) show ?thesis by (auto simp: Tasks_lookup)
      qed
    qed
  qed
  consider (fixed_ci) "task = ciLocalTask" | (fixed_setup) "task = setupLocalTask" | (fixed_clean) "task = cleanTask"
    | (of_pattern) "(name, task) \<in> set ?patterns"
    | (of_job) job where "task = convertJobToTask name job ?patterns (Commands config)"
    | (of_command) command where "task = commandTask name command"
    using shape by blast
  then show ?thesis
  proof cases
    case fixed_ci
    with assms(2) fixed present[of dep] show ?thesis by simp
  next
    case fixed_setup
    with assms(2) fixed show ?thesis by simp
  next
    case fixed_clean
    with assms(2) fixed show ?thesis by simp
  next
    case of_pattern
    from analyzePatterns_entries[OF this] obtain cmd cnt where "task = patternTask cmd cnt" by blast
    with assms(2) show ?thesis by (simp add: patternTask_def)
  next
    case of_job
    with assms(2) convertJobToTask_deps[of name job ?patterns "Commands config"]
    have "dep \<in> fst ` set ?patterns \<or> dep \<in> fst ` set (Commands config)" by blast
    then show ?thesis using present[of dep] by blast
  next
    case of_command
    with assms(2) show ?thesis by (simp add: commandTask_def Let_def)
  qed
qed

theorem no_dangling_dependencies_witness:
  "map_of (Tasks (snd (convertConfig id sharedConfig))) ''build'' =
     Some \<lparr>Desc = ''Task converted from CircleCI job: build'',
           Cmds = [''git checkout HEAD'', ''npm run build''],
           Deps = [''npm-install''], Dir = [], Silent = False, Vars = []\<rparr> \<and>
   map_of (Tasks (snd (convertConfig id sharedConfig))) ''npm-install'' \<noteq> None"
proof -
  have a: "map_of (Tasks (snd (convertConfig id sharedConfig))) ''build'' =
     Some \<lparr>Desc = ''Task converted from CircleCI job: build'',
           Cmds = [''git checkout HEAD'', ''npm run build''],
           Deps = [''npm-install''], Dir = [], Silent = False, Vars = []\<rparr>"
    by code_simp
  from no_dangling_dependencies[OF a, of "''npm-install''"] a show ?thesis by simp
qed

section \<open>Invoking a reusable command with arguments\<close>

lemma map_of_paramVars:
  assumes "\<forall>p \<in> set params. ToUpper (fst p) = K \<longrightarrow> snd p = Map paramMap"
  shows "map_of (fold (\<lambda>(paramName, paramDef) vars.
             case paramDef of
               Map paramMap \<Rightarrow>
                 (let defaultValue = (case map_of paramMap ''default'' of
                                        Some defVal \<Rightarrow> fmtV defVal | None \<Rightarrow> [])
                  in AList.update (ToUpper paramName)
                       (''{{.'' @ ToUpper paramName @ '' | default '' @ [CHR 0x22]
                          @ defaultValue @ [CHR 0x22] @ ''}}'') vars)
             | _ \<Rightarrow> vars) params vars) K =
         (if K \<in> ToUpper ` fst ` set params
          then Some (defaultExpr K (case map_of paramMap ''default'' of
                                        Some defVal \<Rightarrow> fmtV defVal | None \<Rightarrow> []))
          else map_of vars K)"
  using assms
proof (induction params arbitrary: vars)
  case Nil
  show ?case by simp
next
  case (Cons x xs)
  obtain p d where x: "x = (p, d)" by (cases x)
  from Cons.prems have rest: "\<forall>p \<in> set xs. ToUpper (fst p) = K \<longrightarrow> snd p = Map paramMap" by simp
  show ?case
  proof (cases "ToUpper p = K")
    case True
    with Cons.prems x have d: "d = Map paramMap" by simp
    show ?thesis
      using True by (simp add: x d Cons.IH[OF rest] update_conv' defaultExpr_def Let_def)
  next
    case False
    then show ?thesis
      by (cases d) (auto simp: x Cons.IH[OF rest] update_conv' Let_def)
  qed
qed

lemma ToUpper_target: "ToUpper ''target'' = ''TARGET''"
  by code_simp

lemma jobStep_cmds_mono: "\<exists>more. fst (jobStep patterns commands step acc) = fst acc @ more"
  by (cases "isCommandInvocation step")
     (auto simp: jobStep_def Let_def split: yaml.splits bool.splits)

lemma fold_jobStep_cmds_mono:
  "set (fst acc) \<subseteq> set (fst (fold (jobStep patterns commands) steps acc))"
proof (induction steps arbitrary: acc)
  case Nil
  show ?case by simp
next
  case (Cons step steps)
  from jobStep_cmds_mono[of patterns commands step acc]
  have "set (fst acc) \<subseteq> set (fst (jobStep patterns commands step acc))" by auto
  with Cons.IH[of "jobStep patterns commands step acc"] show ?case by auto
qed

lemma fold_jobStep_contains:
  assumes "step \<in> set steps"
    and "\<And>acc. fst (jobStep patterns commands step acc) = fst acc @ [line]"
  shows "line \<in> set (fst (fold (jobStep patterns commands) steps acc))"
  using assms(1)
proof (induction steps arbitrary: acc)
  case Nil
  then show ?case by simp
next
  case (Cons s steps)
  show ?case
  proof (cases "s = step")
    case True
    have "line \<in> set (fst (jobStep patterns commands step acc))" by (simp add: assms(2))
    with fold_jobStep_cmds_mono[of "jobStep patterns commands step acc" patterns commands steps]
    show ?thesis by (auto simp: True)
  next
    case False
    with Cons.prems have "step \<in> set steps" by simp
    from Cons.IH[OF this] show ?thesis by simp
  qed
qed

lemma jobStep_invocation:
  assumes "commandName \<notin> set builtInSteps"
  shows "jobStep patterns commands (Map [(commandName, Map [(''target'', Str ''staging'')])]) acc =
           (fst acc @ [''task '' @ commandName @ '' TARGET=staging''], snd acc)"
proof -
  from assms have nr: "commandName \<noteq> ''run''" by (auto simp: builtInSteps_def)
  have e: "extractCommand (Map [(commandName, Map [(''target'', Str ''staging'')])]) = []"
    using nr by (simp add: extractCommand_def)
  have i: "isCommandInvocation (Map [(commandName, Map [(''target'', Str ''staging'')])])
           = (commandName, True)"
    using assms by (simp add: isCommandInvocation_def)
  have g: "generateTaskCallWithParams commandName
             (Map [(commandName, Map [(''target'', Str ''staging'')])]) commands
           = ''task '' @ commandName @ '' TARGET=staging''"
    by (simp add: generateTaskCallWithParams_def ToUpper_target)
  show ?thesis by (simp add: jobStep_def Let_def e i g del: append.simps)
qed

text \<open>
  C6, as the code has it. A reusable command declares the parameter \<open>target\<close> with
  default \<open>production\<close>, and a step of a job invokes the command with
  \<open>target: staging\<close>. Provided the command's name is no built-in step key, is not the
  name of a job, of a pattern task or of one of the three fixed tasks, no other declared
  parameter has the upper-case name \<open>TARGET\<close>, and the job's name is not the name of a
  pattern task or of a fixed task: the output has a task under the command's name whose
  variable table maps \<open>TARGET\<close> to the default expression falling back to
  \<open>production\<close>, and the job's task has the command line
  \<^verbatim>\<open>task <command> TARGET=staging\<close>; the step adds that line and no dependency.
\<close>

theorem parameterized_invocation:
  assumes dj: "distinct (map fst (Jobs config))" and dc: "distinct (map fst (Commands config))"
    and cmd: "(commandName, command) \<in> set (Commands config)"
    and dp: "distinct (map fst (cmd_Parameters command))"
    and par: "(''target'', Map paramMap) \<in> set (cmd_Parameters command)"
    and dft: "map_of paramMap ''default'' = Some (Str ''production'')"
    and uniq: "\<forall>p \<in> fst ` set (cmd_Parameters command). ToUpper p = ''TARGET'' \<longrightarrow> p = ''target''"
    and job: "(jobName, job) \<in> set (Jobs config)"
    and step: "Map [(commandName, Map [(''target'', Str ''staging'')])] \<in> set (Steps job)"
    and nb: "commandName \<notin> set builtInSteps"
    and cfree: "commandName \<notin> set fixedTasks \<union> fst ` set (analyzePatterns visit config)
                                 \<union> fst ` set (Jobs config)"
    and jfree: "jobName \<notin> set fixedTasks \<union> fst ` set (analyzePatterns visit config)"
  shows "\<exists>commandTask jobTask.
           map_of (Tasks (snd (convertConfig visit config))) commandName = Some commandTask
         \<and> map_of (Vars commandTask) ''TARGET''
             = Some (''{{.TARGET | default '' @ [CHR 0x22] @ ''production'' @ [CHR 0x22] @ ''}}'')
         \<and> map_of (Tasks (snd (convertConfig visit config))) jobName = Some jobTask
         \<and> ''task '' @ commandName @ '' TARGET=staging'' \<in> set (Cmds jobTask)
         \<and> (\<forall>cmds deps.
               jobStep (analyzePatterns visit config) (Commands config)
                 (Map [(commandName, Map [(''target'', Str ''staging'')])]) (cmds, deps)
               = (cmds @ [''task '' @ commandName @ '' TARGET=staging''], deps))"
proof -
  let ?patterns = "analyzePatterns visit config"
  let ?step = "Map [(commandName, Map [(''target'', Str ''staging'')])]"
  let ?line = "''task '' @ commandName @ '' TARGET=staging''"
  have nofix: "commandName \<noteq> ''ci-local''" "commandName \<noteq> ''setup-local''" "commandName \<noteq> ''clean''"
    "jobName \<noteq> ''ci-local''" "jobName \<noteq> ''setup-local''" "jobName \<noteq> ''clean''"
    using cfree jfree by (auto simp: fixedTasks_def)
  have cp: "map_of (rev ?patterns) commandName = None" "map_of (rev ?patterns) jobName = None"
    using cfree jfree by (simp_all add: map_of_rev_None)
  have cj: "map_of (rev (Jobs config)) commandName = None"
    using cfree by (simp add: map_of_rev_None)
  have cc: "map_of (rev (Commands config)) commandName = Some command"
    using dc cmd by (simp add: map_of_rev_distinct)
  have jj: "map_of (rev (Jobs config)) jobName = Some job"
    using dj job by (simp add: map_of_rev_distinct)
  have ct: "map_of (Tasks (snd (convertConfig visit config))) commandName
            = Some (commandTask commandName command)"
    by (simp add: Tasks_lookup nofix cp cj cc)
  have jt: "map_of (Tasks (snd (convertConfig visit config))) jobName
            = Some (convertJobToTask jobName job ?patterns (Commands config))"
    by (simp add: Tasks_lookup nofix cp jj)
  have same: "\<forall>p \<in> set (cmd_Parameters command). ToUpper (fst p) = ''TARGET'' \<longrightarrow> snd p = Map paramMap"
  proof (intro ballI impI)
    fix p assume p: "p \<in> set (cmd_Parameters command)" and u: "ToUpper (fst p) = ''TARGET''"
    from p have "fst p \<in> fst ` set (cmd_Parameters command)" by simp
    with uniq u have "fst p = ''target''" by blast
    then have "(''target'', snd p) \<in> set (cmd_Parameters command)" using p by (cases p) simp
    with dp par show "snd p = Map paramMap" by (meson eq_key_imp_eq_value)
  qed
  from par have "''target'' \<in> fst ` set (cmd_Parameters command)" by force
  then have "ToUpper ''target'' \<in> ToUpper ` fst ` set (cmd_Parameters command)" by blast
  then have mem: "''TARGET'' \<in> ToUpper ` fst ` set (cmd_Parameters command)"
    by (simp only: ToUpper_target)
  have vars: "map_of (Vars (commandTask commandName command)) ''TARGET''
              = Some (''{{.TARGET | default '' @ [CHR 0x22] @ ''production'' @ [CHR 0x22] @ ''}}'')"
    using map_of_paramVars[OF same, of "[]"] mem
    by (simp add: commandTask_def Let_def paramVars_def dft defaultExpr_def)
  have st: "jobStep ?patterns (Commands config) ?step acc = (fst acc @ [?line], snd acc)" for acc
    by (rule jobStep_invocation[OF nb])
  then have "\<And>acc. fst (jobStep ?patterns (Commands config) ?step acc) = fst acc @ [?line]"
    by simp
  from fold_jobStep_contains[OF step this, of "([], [])"]
  have "?line \<in> set (fst (fold (jobStep ?patterns (Commands config)) (Steps job) ([], [])))" .
  moreover obtain cmds deps
    where "fold (jobStep ?patterns (Commands config)) (Steps job) ([], []) = (cmds, deps)"
    by (cases "fold (jobStep ?patterns (Commands config)) (Steps job) ([], [])")
  ultimately have line: "?line \<in> set (Cmds (convertJobToTask jobName job ?patterns (Commands config)))"
    by (simp add: convertJobToTask_def Let_def)
  have "\<forall>cmds deps. jobStep ?patterns (Commands config) ?step (cmds, deps) = (cmds @ [?line], deps)"
    using st by simp
  with ct jt vars line show ?thesis by blast
qed

text \<open>The scenario of the spec: command \<open>deploy\<close>, job \<open>release\<close>.\<close>

theorem parameterized_invocation_witness:
  "\<exists>commandTask jobTask.
      map_of (Tasks (snd (convertConfig id scenario))) ''deploy'' = Some commandTask
    \<and> map_of (Vars commandTask) ''TARGET''
        = Some (''{{.TARGET | default '' @ [CHR 0x22] @ ''production'' @ [CHR 0x22] @ ''}}'')
    \<and> map_of (Tasks (snd (convertConfig id scenario))) ''release'' = Some jobTask
    \<and> ''task deploy TARGET=staging'' \<in> set (Cmds jobTask)"
proof -
  let ?command = "\<lparr>Description = [],
                cmd_Parameters = [(''target'', Map [(''type'', Str ''string''),
                                                    (''default'', Str ''production'')])],
                cmd_Steps = [Map [(''run'', Str ''./deploy.sh << parameters.target >>'')]]\<rparr>"
  let ?job = "\<lparr>Executor = Nil, Docker = [\<lparr>Image = ''cimg/base:stable''\<rparr>], Machine = Nil,
                Steps = [Str ''checkout'',
                         Map [(''deploy'', Map [(''target'', Str ''staging'')])]],
                Environment = Nil, Parameters = []\<rparr>"
  have a: "analyzePatterns id scenario = []" by code_simp
  have u: "\<forall>p \<in> fst ` set (cmd_Parameters ?command). ToUpper p = ''TARGET'' \<longrightarrow> p = ''target''"
    by simp
  have h: "distinct (map fst (Jobs scenario))" "distinct (map fst (Commands scenario))"
    "(''deploy'', ?command) \<in> set (Commands scenario)"
    "distinct (map fst (cmd_Parameters ?command))"
    "(''target'', Map [(''type'', Str ''string''), (''default'', Str ''production'')])
       \<in> set (cmd_Parameters ?command)"
    "map_of [(''type'', Str ''string''), (''default'', Str ''production'')] ''default''
       = Some (Str ''production'')"
    "(''release'', ?job) \<in> set (Jobs scenario)"
    "Map [(''deploy'', Map [(''target'', Str ''staging'')])] \<in> set (Steps ?job)"
    "''deploy'' \<notin> set builtInSteps"
    by (simp_all add: scenario_def builtInSteps_def)
  have "''deploy'' \<notin> fst ` set (Jobs scenario)" by (simp add: scenario_def)
  then have f: "''deploy'' \<notin> set fixedTasks \<union> fst ` set (analyzePatterns id scenario) \<union> fst ` set (Jobs scenario)"
    "''release'' \<notin> set fixedTasks \<union> fst ` set (analyzePatterns id scenario)"
    by (simp_all add: fixedTasks_def a)
  from parameterized_invocation[OF h(1-6) u h(7-9) f] show ?thesis by auto
qed

text \<open>
  The same scenario with the command called \<open>clean\<close>: the task \<open>clean\<close> of the
  output is the fixed cleaning task, which has no variable table.
\<close>

theorem command_named_clean_loses_its_task:
  "map_option Vars (map_of (Tasks (snd (convertConfig id cleanCommandConfig))) ''clean'') = Some [] \<and>
   map_of (Tasks (snd (convertConfig id cleanCommandConfig))) ''clean'' = Some cleanTask"
  by code_simp

section \<open>Rewriting parameter markers\<close>






















section \<open>Pattern tasks\<close>

lemma countCommands_fold:
  "countCommands jobs =
     fold increment (concat (map (\<lambda>(jobName, job). stepCommands (Steps job)) jobs)) []"
proof -
  have "fold (\<lambda>(jobName, job) counts. fold increment (stepCommands (Steps job)) counts) jobs m
        = fold increment (concat (map (\<lambda>(jobName, job). stepCommands (Steps job)) jobs)) m"
    for m
    by (induction jobs arbitrary: m) (auto simp: case_prod_beta)
  then show ?thesis by (simp add: countCommands_def)
qed

lemma distinct_increment: "distinct (map fst m) \<Longrightarrow> distinct (map fst (fold increment xs m))"
  by (induction xs arbitrary: m) (simp_all add: increment_def distinct_update)

lemma map_of_increment:
  "map_of (increment k m) c =
     (if c = k then Some (case map_of m k of None \<Rightarrow> 1 | Some n \<Rightarrow> n + 1) else map_of m c)"
  by (simp add: increment_def update_conv')

lemma map_of_fold_increment:
  "map_of (fold increment xs m) c =
     (case map_of m c of
        None \<Rightarrow> if c \<in> set xs then Some (count_list xs c) else None
      | Some n \<Rightarrow> Some (n + count_list xs c))"
proof (induction xs arbitrary: m)
  case Nil
  show ?case by (simp split: option.splits)
next
  case (Cons x xs)
  show ?case
    by (simp add: Cons.IH map_of_increment split: option.splits)
qed

lemma set_countCommands:
  "set (countCommands (Jobs config)) =
     (\<lambda>c. (c, occurrences config c)) ` set (jobCommands config)"
proof -
  let ?xs = "jobCommands config"
  have cc: "countCommands (Jobs config) = fold increment ?xs []"
    by (simp add: countCommands_fold jobCommands_def)
  have d: "distinct (map fst (countCommands (Jobs config)))"
    unfolding cc by (rule distinct_increment) simp
  have m: "map_of (countCommands (Jobs config)) c =
             (if c \<in> set ?xs then Some (count_list ?xs c) else None)" for c
    unfolding cc by (simp add: map_of_fold_increment)
  show ?thesis
  proof (rule set_eqI)
    fix p :: "string \<times> nat"
    obtain c k where p: "p = (c, k)" by (cases p)
    have "(c, k) \<in> set (countCommands (Jobs config)) \<longleftrightarrow> map_of (countCommands (Jobs config)) c = Some k"
      using d by simp
    also have "\<dots> \<longleftrightarrow> c \<in> set ?xs \<and> k = count_list ?xs c" by (auto simp: m)
    finally show "p \<in> set (countCommands (Jobs config)) \<longleftrightarrow>
                  p \<in> (\<lambda>c. (c, occurrences config c)) ` set ?xs"
      by (auto simp: p occurrences_def)
  qed
qed

lemma distinct_countCommands: "distinct (map fst (countCommands jobs))"
  unfolding countCommands_fold by (rule distinct_increment) simp

lemma visiting_set: "visiting visit \<Longrightarrow> set (visit m) = set m"
  unfolding visiting_def by (metis mset_eq_setD)

lemma visiting_distinct:
  assumes "visiting visit" and "distinct (map fst m)"
  shows "distinct (map fst (visit m))"
proof -
  from assms(1) have "mset (map fst (visit m)) = mset (map fst m)"
    unfolding visiting_def by (metis mset_map)
  with assms(2) show ?thesis by (metis mset_eq_imp_distinct_iff)
qed

lemma analyzePatterns_entries_fold:
  "analyzePatterns visit config =
     fold (\<lambda>(name, task) patterns. AList.update name task patterns)
          (patternEntries (visit (countCommands (Jobs config)))) []"
proof -
  have "fold (\<lambda>(cmd, cnt) patterns.
              if cnt \<ge> 2 then AList.update (generateTaskName cmd) (patternTask cmd cnt) patterns
              else patterns) xs m
        = fold (\<lambda>(name, task) patterns. AList.update name task patterns) (patternEntries xs) m"
    for xs and m :: "(string \<times> Task) list"
    by (induction xs arbitrary: m) (auto simp: patternEntries_def)
  then show ?thesis by (simp add: analyzePatterns_def Let_def)
qed

lemma occurrences_ge2_in_set: "2 \<le> occurrences config c \<Longrightarrow> c \<in> set (jobCommands config)"
  unfolding occurrences_def by (metis count_list_0_iff not_numeral_le_zero)

lemma set_patternEntries:
  assumes "visiting visit"
  shows "set (patternEntries (visit (countCommands (Jobs config)))) =
           (\<lambda>c. (generateTaskName c, patternTask c (occurrences config c)))
             ` {c. 2 \<le> occurrences config c}"
proof -
  have s: "set (visit (countCommands (Jobs config)))
           = (\<lambda>c. (c, occurrences config c)) ` set (jobCommands config)"
    by (simp only: visiting_set[OF assms] set_countCommands)
  have a: "{c \<in> set (jobCommands config). 2 \<le> occurrences config c} = {c. 2 \<le> occurrences config c}"
    using occurrences_ge2_in_set by blast
  have "set (patternEntries (visit (countCommands (Jobs config))))
        = (\<lambda>p. (generateTaskName (fst p), patternTask (fst p) (snd p)))
            ` {p \<in> set (visit (countCommands (Jobs config))). 2 \<le> snd p}"
    by (simp add: patternEntries_def case_prod_beta)
  also have "{p \<in> set (visit (countCommands (Jobs config))). 2 \<le> snd p}
             = (\<lambda>c. (c, occurrences config c)) ` {c \<in> set (jobCommands config). 2 \<le> occurrences config c}"
    unfolding s by auto
  finally show ?thesis unfolding a by (simp add: image_image)
qed

lemma keys_fold_update:
  "fst ` set (fold (\<lambda>(k, v) m. AList.update k v m) ys m) = fst ` set ys \<union> fst ` set m"
proof (induction ys arbitrary: m)
  case Nil
  show ?case by simp
next
  case (Cons y ys)
  obtain k v where y: "y = (k, v)" by (cases y)
  have "set (map fst (AList.update k v m)) = insert k (set (map fst m))"
    by (auto simp: update_keys)
  then have "fst ` set (AList.update k v m) = insert k (fst ` set m)" by simp
  then show ?case by (simp add: y Cons.IH)
qed

lemma set_fold_update_subset:
  "set (fold (\<lambda>(k, v) m. AList.update k v m) ys m) \<subseteq> set ys \<union> set m"
proof (induction ys arbitrary: m)
  case Nil
  show ?case by simp
next
  case (Cons y ys)
  obtain k v where y: "y = (k, v)" by (cases y)
  have "set (AList.update k v m) \<subseteq> insert (k, v) (set m)"
    using in_set_updateD[of _ _ k v m] by auto
  with Cons.IH[of "AList.update k v m"] show ?case by (auto simp: y)
qed

lemma set_fold_update_distinct:
  assumes "distinct (map fst ys)"
  shows "set (fold (\<lambda>(k, v) m. AList.update k v m) ys []) = set ys"
proof -
  let ?r = "fold (\<lambda>(k, v) m. AList.update k v m) ys []"
  have d: "distinct (map fst ?r)"
    using distinct_fold_update[of "[]" "\<lambda>k v. v" ys] by simp
  have "map_of ?r n = map_of ys n" for n
    by (simp add: map_of_fold_update_plain map_of_rev_distinct[OF assms] split: option.splits)
  then have "map_of ?r = map_of ys" by (rule ext)
  with d assms show ?thesis by (simp add: map_of_inject_set)
qed

lemma patternTask_cmd: "patternTask c k = patternTask c' k' \<Longrightarrow> c = c'"
  by (simp add: patternTask_def)

lemma jobCommands_normalized: "c \<in> set (jobCommands config) \<Longrightarrow> normalizeCommand c = c"
  by (auto simp: jobCommands_def stepCommands_def normalizeCommand_idem)

lemma Join_nonempty: "ws \<noteq> [] \<Longrightarrow> hd ws \<noteq> [] \<Longrightarrow> Join ws sep \<noteq> []"
  by (induction ws sep rule: Join.induct) auto

lemma generateTaskName_nonempty: "generateTaskName cmd \<noteq> []"
proof -
  let ?parts = "filter (\<lambda>word. \<not> HasPrefix word ''-'' \<and> \<not> isCommonWord word) (take 3 (Fields cmd))"
  have "Join ?parts ''-'' \<noteq> []" if "?parts \<noteq> []"
  proof (rule Join_nonempty[OF that])
    from that have "hd ?parts \<in> set ?parts" by (rule hd_in_set)
    then have "hd ?parts \<in> set (Fields cmd)" by (auto dest: in_set_takeD)
    then show "hd ?parts \<noteq> []" using Fields_words[of "hd ?parts" cmd] by (simp add: token_def)
  qed
  then show ?thesis by (simp add: generateTaskName_def Let_def)
qed

lemma Cmds_patternTask: "Cmds (patternTask c k) = [c]"
  by (simp add: patternTask_def)

lemma findPatternTask_Cons:
  "findPatternTask n ((name, patternTask c k) # ps) =
     (if normalizeCommand c = n then name else findPatternTask n ps)"
  by (simp add: Cmds_patternTask)

lemma findPatternTask_by_entries:
  assumes "\<forall>p \<in> set ps. \<exists>c k. p = (generateTaskName c, patternTask c k) \<and> normalizeCommand c = c"
  shows "findPatternTask n ps =
           (if \<exists>k. (generateTaskName n, patternTask n k) \<in> set ps then generateTaskName n else [])"
  using assms
proof (induction ps)
  case Nil
  show ?case by simp
next
  case (Cons p ps)
  from Cons.prems obtain c k where p: "p = (generateTaskName c, patternTask c k)"
    and c: "normalizeCommand c = c" by auto
  from Cons.prems have rest: "\<forall>p \<in> set ps. \<exists>c k. p = (generateTaskName c, patternTask c k) \<and> normalizeCommand c = c"
    by simp
  show ?case
  proof (cases "c = n")
    case True
    have "findPatternTask n (p # ps) = generateTaskName n"
      unfolding p findPatternTask_Cons c using True by simp
    moreover have "(generateTaskName n, patternTask n k) \<in> set (p # ps)"
      unfolding p True by simp
    ultimately show ?thesis by (simp only: if_P[OF exI])
  next
    case False
    have "(generateTaskName n, patternTask n k') \<noteq> p" for k'
    proof
      assume "(generateTaskName n, patternTask n k') = p"
      then have "patternTask n k' = patternTask c k" unfolding p by simp
      from patternTask_cmd[OF this] False show False by simp
    qed
    then have "(\<exists>k. (generateTaskName n, patternTask n k) \<in> set (p # ps))
               \<longleftrightarrow> (\<exists>k. (generateTaskName n, patternTask n k) \<in> set ps)" by auto
    moreover have "findPatternTask n (p # ps) = findPatternTask n ps"
      unfolding p findPatternTask_Cons c using False by simp
    ultimately show ?thesis using Cons.IH[OF rest] by simp
  qed
qed

lemma analyzePatterns_subset:
  assumes "visiting visit"
  shows "set (analyzePatterns visit config)
           \<subseteq> (\<lambda>c. (generateTaskName c, patternTask c (occurrences config c)))
                 ` {c. 2 \<le> occurrences config c}"
  using set_fold_update_subset[of "patternEntries (visit (countCommands (Jobs config)))" "[]"]
  unfolding analyzePatterns_entries_fold set_patternEntries[OF assms] by simp

lemma analyzePatterns_names:
  assumes "visiting visit"
  shows "fst ` set (analyzePatterns visit config) = generateTaskName ` {c. 2 \<le> occurrences config c}"
  unfolding analyzePatterns_entries_fold keys_fold_update set_patternEntries[OF assms]
  by (simp add: image_image)

lemma distinct_patternEntries:
  assumes "visiting visit" and "inj_on generateTaskName {c. 2 \<le> occurrences config c}"
  shows "distinct (map fst (patternEntries (visit (countCommands (Jobs config)))))"
proof -
  let ?xs = "visit (countCommands (Jobs config))"
  let ?f = "filter (\<lambda>(cmd, cnt). 2 \<le> cnt) ?xs"
  have d: "distinct (map fst ?f)"
    using visiting_distinct[OF assms(1) distinct_countCommands[of "Jobs config"]]
    by (simp add: distinct_map_filter)
  have s: "set ?xs = (\<lambda>c. (c, occurrences config c)) ` set (jobCommands config)"
    by (simp only: visiting_set[OF assms(1)] set_countCommands)
  have "set (map fst ?f) \<subseteq> {c. 2 \<le> occurrences config c}"
    unfolding set_map set_filter s by auto
  with assms(2) have "inj_on generateTaskName (set (map fst ?f))" by (rule inj_on_subset)
  with d have "distinct (map generateTaskName (map fst ?f))"
    using distinct_map[of generateTaskName "map fst ?f"] by blast
  moreover have "map fst (patternEntries ?xs) = map generateTaskName (map fst ?f)"
    by (simp add: patternEntries_def case_prod_beta comp_def)
  ultimately show ?thesis by simp
qed

lemma set_analyzePatterns:
  assumes "visiting visit" and "inj_on generateTaskName {c. 2 \<le> occurrences config c}"
  shows "set (analyzePatterns visit config)
           = (\<lambda>c. (generateTaskName c, patternTask c (occurrences config c)))
               ` {c. 2 \<le> occurrences config c}"
  unfolding analyzePatterns_entries_fold
  by (simp only: set_fold_update_distinct[OF distinct_patternEntries[OF assms]]
                 set_patternEntries[OF assms(1)])

lemma analyzePatterns_wellformed:
  assumes "visiting visit"
  shows "\<forall>p \<in> set (analyzePatterns visit config).
           \<exists>c k. p = (generateTaskName c, patternTask c k) \<and> normalizeCommand c = c"
proof
  fix p assume "p \<in> set (analyzePatterns visit config)"
  with analyzePatterns_subset[OF assms, of config]
  obtain c where "2 \<le> occurrences config c"
    and p: "p = (generateTaskName c, patternTask c (occurrences config c))" by auto
  from jobCommands_normalized[OF occurrences_ge2_in_set[OF this(1)]] p
  show "\<exists>c k. p = (generateTaskName c, patternTask c k) \<and> normalizeCommand c = c" by blast
qed

lemma findPatternTask_analyzePatterns:
  assumes "visiting visit" and "inj_on generateTaskName {c. 2 \<le> occurrences config c}"
  shows "findPatternTask n (analyzePatterns visit config) =
           (if 2 \<le> occurrences config n then generateTaskName n else [])"
proof -
  have "(\<exists>k. (generateTaskName n, patternTask n k) \<in> set (analyzePatterns visit config))
        \<longleftrightarrow> 2 \<le> occurrences config n"
    unfolding set_analyzePatterns[OF assms]
    by (auto dest: patternTask_cmd)
  with findPatternTask_by_entries[OF analyzePatterns_wellformed[OF assms(1)], where n = n]
  show ?thesis by simp
qed

lemma jobStep_run:
  assumes "extractCommand step \<noteq> []"
  shows "jobStep patterns commands step (cmds, deps) =
           (let converted = convertParameterSyntax (extractCommand step);
                taskName = findPatternTask (normalizeCommand converted) patterns
            in if taskName \<noteq> [] then (cmds, deps @ [taskName]) else (cmds @ [converted], deps))"
  using assms by (simp add: jobStep_def Let_def)

text \<open>
  C1, as the code has it. Only the run steps of jobs are counted. The names of the pattern
  tasks are the names derived from the normalised commands that occur at least twice
  among them. Provided no two such commands derive the same name: the pattern map has
  exactly one entry for each such command and no other entry, and a run step of a job
  becomes a dependency on the pattern task if its command, with the parameter markers
  rewritten and then normalised, is such a command, and an inline command line if not.
  A run step of a reusable command always becomes an inline command line, and the task
  of a reusable command has no dependencies.
\<close>

theorem pattern_tasks_from_repeated_job_commands:
  assumes "visiting visit"
  shows "(name \<in> fst ` set (analyzePatterns visit config)
            \<longleftrightarrow> (\<exists>c. 2 \<le> occurrences config c \<and> generateTaskName c = name))
       \<and> (inj_on generateTaskName {c. 2 \<le> occurrences config c} \<longrightarrow>
            distinct (map fst (analyzePatterns visit config))
          \<and> set (analyzePatterns visit config)
              = (\<lambda>c. (generateTaskName c, patternTask c (occurrences config c)))
                  ` {c. 2 \<le> occurrences config c}
          \<and> (extractCommand step \<noteq> [] \<longrightarrow>
               jobStep (analyzePatterns visit config) commands step (cmds, deps) =
                 (if 2 \<le> occurrences config
                            (normalizeCommand (convertParameterSyntax (extractCommand step)))
                  then (cmds, deps @ [generateTaskName
                            (normalizeCommand (convertParameterSyntax (extractCommand step)))])
                  else (cmds @ [convertParameterSyntax (extractCommand step)], deps))))
       \<and> (extractCommand step \<noteq> [] \<longrightarrow>
            commandStep step cmds = cmds @ [convertParameterSyntax (extractCommand step)])
       \<and> Deps (commandTask commandName command) = []"
proof (intro conjI impI)
  show "name \<in> fst ` set (analyzePatterns visit config)
            \<longleftrightarrow> (\<exists>c. 2 \<le> occurrences config c \<and> generateTaskName c = name)"
    unfolding analyzePatterns_names[OF assms] by auto
next
  show "distinct (map fst (analyzePatterns visit config))" by (rule distinct_analyzePatterns)
next
  assume "inj_on generateTaskName {c. 2 \<le> occurrences config c}"
  then show "set (analyzePatterns visit config)
              = (\<lambda>c. (generateTaskName c, patternTask c (occurrences config c)))
                  ` {c. 2 \<le> occurrences config c}"
    by (rule set_analyzePatterns[OF assms])
next
  assume inj: "inj_on generateTaskName {c. 2 \<le> occurrences config c}"
    and run: "extractCommand step \<noteq> []"
  let ?n = "normalizeCommand (convertParameterSyntax (extractCommand step))"
  note f = findPatternTask_analyzePatterns[OF assms inj, of ?n]
  show "jobStep (analyzePatterns visit config) commands step (cmds, deps) =
          (if 2 \<le> occurrences config ?n then (cmds, deps @ [generateTaskName ?n])
           else (cmds @ [convertParameterSyntax (extractCommand step)], deps))"
    unfolding jobStep_run[OF run] Let_def f
    by (simp add: generateTaskName_nonempty)
next
  assume "extractCommand step \<noteq> []"
  then show "commandStep step cmds = cmds @ [convertParameterSyntax (extractCommand step)]"
    by (simp add: commandStep_def Let_def)
next
  show "Deps (commandTask commandName command) = []" by (simp add: commandTask_def Let_def)
qed

theorem pattern_tasks_from_repeated_job_commands_witness:
  "visiting id \<and> inj_on generateTaskName {c. 2 \<le> occurrences sharedConfig c} \<and>
   extractCommand (Map [(''run'', Str ''npm   install'')]) \<noteq> [] \<and>
   set (analyzePatterns id sharedConfig) = {(''npm-install'', patternTask ''npm install'' 2)} \<and>
   jobStep (analyzePatterns id sharedConfig) [] (Map [(''run'', Str ''npm   install'')]) ([], [])
     = ([], [''npm-install'']) \<and>
   commandStep (Map [(''run'', Str ''npm   install'')]) [] = [''npm   install'']"
proof -
  have L: "jobCommands sharedConfig = [''npm install'', ''npm run build'', ''npm install'', ''npm test'']"
    by code_simp
  have S: "{c. 2 \<le> occurrences sharedConfig c} = {''npm install''}"
    by (auto simp: occurrences_def L split: if_splits)
  have v: "visiting id" by (simp add: visiting_def)
  have i: "inj_on generateTaskName {c. 2 \<le> occurrences sharedConfig c}" unfolding S by simp
  have e: "extractCommand (Map [(''run'', Str ''npm   install'')]) \<noteq> []"
    by (simp add: extractCommand_def)
  have g: "generateTaskName ''npm install'' = ''npm-install''" by code_simp
  have o: "occurrences sharedConfig ''npm install'' = 2" by (simp add: occurrences_def L)
  have n: "normalizeCommand (convertParameterSyntax
             (extractCommand (Map [(''run'', Str ''npm   install'')]))) = ''npm install''"
    by code_simp
  have c: "convertParameterSyntax (extractCommand (Map [(''run'', Str ''npm   install'')]))
           = ''npm   install''" by code_simp
  note t = pattern_tasks_from_repeated_job_commands
             [OF v, of _ sharedConfig "Map [(''run'', Str ''npm   install'')]" "[]" "[]" "[]" "[]"]
  from t i e have "set (analyzePatterns id sharedConfig)
          = (\<lambda>c. (generateTaskName c, patternTask c (occurrences sharedConfig c)))
              ` {c. 2 \<le> occurrences sharedConfig c}" by blast
  then have 1: "set (analyzePatterns id sharedConfig) = {(''npm-install'', patternTask ''npm install'' 2)}"
    unfolding S by (simp add: g o)
  from t i e have "jobStep (analyzePatterns id sharedConfig) [] (Map [(''run'', Str ''npm   install'')]) ([], []) =
        (if 2 \<le> occurrences sharedConfig
                   (normalizeCommand (convertParameterSyntax
                      (extractCommand (Map [(''run'', Str ''npm   install'')]))))
         then ([], [] @ [generateTaskName
                   (normalizeCommand (convertParameterSyntax
                      (extractCommand (Map [(''run'', Str ''npm   install'')]))))])
         else ([] @ [convertParameterSyntax
                      (extractCommand (Map [(''run'', Str ''npm   install'')]))], []))" by blast
  then have 2: "jobStep (analyzePatterns id sharedConfig) [] (Map [(''run'', Str ''npm   install'')]) ([], [])
     = ([], [''npm-install''])" unfolding n o g by simp
  from t e have "commandStep (Map [(''run'', Str ''npm   install'')]) []
        = [] @ [convertParameterSyntax (extractCommand (Map [(''run'', Str ''npm   install'')]))]"
    by blast
  then have 3: "commandStep (Map [(''run'', Str ''npm   install'')]) [] = [''npm   install'']"
    unfolding c by simp
  from v i e 1 2 3 show ?thesis by blast
qed

text \<open>
  \<^verbatim>\<open>npm install\<close> once in a job and once in a reusable command: two occurrences
  in the union, no pattern task, both steps inline.
\<close>

theorem command_steps_not_counted:
  "count_list (unionCommands unionConfig) ''npm install'' = 2 \<and>
   analyzePatterns id unionConfig = [] \<and>
   map_option Cmds (map_of (Tasks (snd (convertConfig id unionConfig))) ''build'')
     = Some [''npm install'', ''npm run build''] \<and>
   map_option Deps (map_of (Tasks (snd (convertConfig id unionConfig))) ''build'') = Some [] \<and>
   map_option Cmds (map_of (Tasks (snd (convertConfig id unionConfig))) ''prepare'')
     = Some [''npm install''] \<and>
   map_option Deps (map_of (Tasks (snd (convertConfig id unionConfig))) ''prepare'') = Some []"
  by code_simp

section \<open>Determinism\<close>

lemma mset_concat_map:
  "mset xs = mset ys \<Longrightarrow> mset (concat (map f xs)) = mset (concat (map f ys))"
proof -
  have "mset (concat (map f zs)) = (\<Sum>z\<in>#mset zs. mset (f z))" for zs
    by (induction zs) simp_all
  then show "mset xs = mset ys \<Longrightarrow> ?thesis" by simp
qed

lemma occurrences_sameInput:
  assumes "sameInput a b"
  shows "occurrences a = occurrences b"
proof
  fix c
  from assms have "mset (Jobs a) = mset (Jobs b)" by (simp add: sameInput_def)
  then have "mset (jobCommands a) = mset (jobCommands b)"
    unfolding jobCommands_def by (rule mset_concat_map)
  then have "count (mset (jobCommands a)) c = count (mset (jobCommands b)) c" by simp
  then show "occurrences a c = occurrences b c" by (simp add: occurrences_def count_mset)
qed

lemma map_of_mset:
  assumes "mset xs = mset ys" and "distinct (map fst xs)"
  shows "map_of xs = map_of ys" and "distinct (map fst ys)"
proof -
  from assms(1) have "mset (map fst xs) = mset (map fst ys)" by (metis mset_map)
  with assms(2) show d: "distinct (map fst ys)" by (metis mset_eq_imp_distinct_iff)
  from assms(1) have "set xs = set ys" by (rule mset_eq_setD)
  with assms(2) d show "map_of xs = map_of ys" by (simp add: map_of_inject_set)
qed

lemma jobStep_cong:
  assumes "\<And>n. findPatternTask n p = findPatternTask n p'" and "map_of c = map_of c'"
  shows "jobStep p c step acc = jobStep p' c' step acc"
proof -
  have g: "generateTaskCallWithParams n step c = generateTaskCallWithParams n step c'" for n
    by (simp add: generateTaskCallWithParams_def)
  show ?thesis
    unfolding jobStep_def Let_def assms(1) assms(2) g ..
qed

lemma convertJobToTask_cong:
  assumes "\<And>n. findPatternTask n p = findPatternTask n p'" and "map_of c = map_of c'"
  shows "convertJobToTask name job p c = convertJobToTask name job p' c'"
proof -
  have "jobStep p c = jobStep p' c'"
    by (intro ext jobStep_cong assms)
  then show ?thesis by (simp add: convertJobToTask_def)
qed

lemma keys_fold_names:
  "fst ` set (fold (\<lambda>name. AList.update name True) xs m) = set xs \<union> fst ` set m"
proof (induction xs arbitrary: m)
  case Nil
  show ?case by simp
next
  case (Cons x xs)
  have "set (map fst (AList.update x True m)) = insert x (set (map fst m))"
    by (auto simp: update_keys)
  then have "fst ` set (AList.update x True m) = insert x (fst ` set m)" by simp
  then show ?case by (simp add: Cons.IH)
qed

lemma keys_fold_steps:
  "fst ` set (fold (\<lambda>p envVars. fold (\<lambda>name. AList.update name True) (g (snd p)) envVars) xs m)
     = (\<Union>p \<in> set xs. set (g (snd p))) \<union> fst ` set m"
proof (induction xs arbitrary: m)
  case Nil
  show ?case by simp
next
  case (Cons x xs)
  show ?case by (auto simp: Cons.IH keys_fold_names)
qed

lemma keys_extractEnvironmentVariables:
  "fst ` set (extractEnvironmentVariables config) =
     (\<Union>p \<in> set (Jobs config). set (stepEnvNames (Steps (snd p))))
       \<union> (\<Union>p \<in> set (Commands config). set (stepEnvNames (cmd_Steps (snd p))))"
proof -
  have "fst ` set (extractEnvironmentVariables config) =
     (\<Union>p \<in> set (Commands config). set (stepEnvNames (cmd_Steps (snd p))))
       \<union> ((\<Union>p \<in> set (Jobs config). set (stepEnvNames (Steps (snd p))))
            \<union> fst ` set ([] :: (string \<times> bool) list))"
    unfolding extractEnvironmentVariables_def Let_def case_prod_beta
    by (simp only: keys_fold_steps[where g = "\<lambda>job. stepEnvNames (Steps job)"]
                   keys_fold_steps[where g = "\<lambda>command. stepEnvNames (cmd_Steps command)"])
  then show ?thesis by auto
qed

lemma map_of_addLocalEnvDefaults:
  "map_of (addLocalEnvDefaults config) n =
     (if n \<in> fst ` set (extractEnvironmentVariables config) then Some (envDefault n) else None)"
proof -
  have "map_of (fold (\<lambda>(envVar, used) envVars. AList.update envVar (envDefault envVar) envVars)
                  xs []) n
        = (case map_of (rev xs) n of Some used \<Rightarrow> Some (envDefault n) | None \<Rightarrow> map_of [] n)"
    for xs :: "(string \<times> bool) list"
    using map_of_fold_update[where f = "\<lambda>k v. envDefault k" and m = "[]"] .
  then have "map_of (addLocalEnvDefaults config) n =
          (case map_of (rev (extractEnvironmentVariables config)) n of
             Some used \<Rightarrow> Some (envDefault n) | None \<Rightarrow> None)"
    by (simp add: addLocalEnvDefaults_def split: option.splits)
  then show ?thesis
    using map_of_rev_None[of "extractEnvironmentVariables config" n]
    by (cases "map_of (rev (extractEnvironmentVariables config)) n") auto
qed

lemma convertConfig_fields:
  "Version (fst (convertConfig visit config)) = Version config"
  "Commands (fst (convertConfig visit config)) = []"
  "Workflows (fst (convertConfig visit config)) = Workflows config"
  "Executors (fst (convertConfig visit config)) = Executors config"
  "tf_Version (snd (convertConfig visit config)) = ''3''"
  "Env (snd (convertConfig visit config)) = addLocalEnvDefaults config"
  by (simp_all add: convertConfig_def Let_def split: prod.splits)

lemma map_of_minimized_Jobs:
  "map_of (Jobs (fst (convertConfig visit config))) n =
     (case map_of (rev (Jobs config)) n of
        Some job \<Rightarrow> Some (minimalJob n job) | None \<Rightarrow> None)"
proof -
  have "map_of (fold (\<lambda>(jobName, job) newJobs. AList.update jobName (minimalJob jobName job) newJobs)
                  xs []) n
        = (case map_of (rev xs) n of Some job \<Rightarrow> Some (minimalJob n job) | None \<Rightarrow> map_of [] n)"
    for xs
    using map_of_fold_update[where f = minimalJob and m = "[]"] .
  then show ?thesis by (simp add: convertConfig_Jobs split: option.splits)
qed

text \<open>
  C9, as the code has it. Take two runs on the same input: the jobs and the reusable
  commands may be visited in any two orders, the command counts may be visited in any
  two orders, and the mapping of a single step, of its arguments and of a parameter list
  is visited in the same order in both runs. If no two normalised commands that occur at
  least twice among the job steps derive the same task name, both runs give the same
  minimised configuration, the same task mapping (so the same decisions between
  dependency and inline command line), the same pattern tasks and the same environment
  table.
\<close>

theorem conversion_deterministic_without_name_collision:
  assumes same: "sameInput a b"
    and dj: "distinct (map fst (Jobs a))" and dc: "distinct (map fst (Commands a))"
    and v: "visiting v" and w: "visiting w"
    and inj: "inj_on generateTaskName {c. 2 \<le> occurrences a c}"
  shows "Version (fst (convertConfig v a)) = Version (fst (convertConfig w b))
       \<and> map_of (Jobs (fst (convertConfig v a))) = map_of (Jobs (fst (convertConfig w b)))
       \<and> Commands (fst (convertConfig v a)) = Commands (fst (convertConfig w b))
       \<and> Workflows (fst (convertConfig v a)) = Workflows (fst (convertConfig w b))
       \<and> Executors (fst (convertConfig v a)) = Executors (fst (convertConfig w b))
       \<and> tf_Version (snd (convertConfig v a)) = tf_Version (snd (convertConfig w b))
       \<and> map_of (Tasks (snd (convertConfig v a))) = map_of (Tasks (snd (convertConfig w b)))
       \<and> map_of (Env (snd (convertConfig v a))) = map_of (Env (snd (convertConfig w b)))
       \<and> set (analyzePatterns v a) = set (analyzePatterns w b)"
proof -
  from same have mj: "mset (Jobs a) = mset (Jobs b)" and mc: "mset (Commands a) = mset (Commands b)"
    and eqs: "Version a = Version b" "Workflows a = Workflows b" "Executors a = Executors b"
    by (simp_all add: sameInput_def)
  note jobs = map_of_mset[OF mj dj]
  note cmds = map_of_mset[OF mc dc]
  have sj: "set (Jobs a) = set (Jobs b)" using mj by (rule mset_eq_setD)
  have sc: "set (Commands a) = set (Commands b)" using mc by (rule mset_eq_setD)
  have rj: "map_of (rev (Jobs a)) = map_of (rev (Jobs b))"
    by (simp only: map_of_rev_distinct[OF dj] map_of_rev_distinct[OF jobs(2)] jobs(1))
  have rc: "map_of (rev (Commands a)) = map_of (rev (Commands b))"
    by (simp only: map_of_rev_distinct[OF dc] map_of_rev_distinct[OF cmds(2)] cmds(1))
  note occ = occurrences_sameInput[OF same]
  from inj have inj': "inj_on generateTaskName {c. 2 \<le> occurrences b c}" by (simp only: occ)
  have sp: "set (analyzePatterns v a) = set (analyzePatterns w b)"
    by (simp only: set_analyzePatterns[OF v inj] set_analyzePatterns[OF w inj'] occ)
  have "map_of (analyzePatterns v a) = map_of (analyzePatterns w b)"
    using sp by (simp add: map_of_inject_set distinct_analyzePatterns)
  then have rp: "map_of (rev (analyzePatterns v a)) = map_of (rev (analyzePatterns w b))"
    by (simp only: map_of_rev_distinct[OF distinct_analyzePatterns])
  have fp: "findPatternTask n (analyzePatterns v a) = findPatternTask n (analyzePatterns w b)" for n
    by (simp only: findPatternTask_analyzePatterns[OF v inj] findPatternTask_analyzePatterns[OF w inj'] occ)
  have jt: "convertJobToTask name job (analyzePatterns v a) (Commands a)
            = convertJobToTask name job (analyzePatterns w b) (Commands b)" for name job
    by (rule convertJobToTask_cong[OF fp cmds(1)])
  have tasks: "map_of (Tasks (snd (convertConfig v a))) = map_of (Tasks (snd (convertConfig w b)))"
    by (rule ext) (simp only: Tasks_lookup rp rj rc jt)
  have newjobs: "map_of (Jobs (fst (convertConfig v a))) = map_of (Jobs (fst (convertConfig w b)))"
    by (rule ext) (simp only: map_of_minimized_Jobs rj)
  have env: "map_of (Env (snd (convertConfig v a))) = map_of (Env (snd (convertConfig w b)))"
    by (rule ext)
       (simp only: convertConfig_fields map_of_addLocalEnvDefaults
                   keys_extractEnvironmentVariables sj sc)
  from tasks newjobs env sp eqs show ?thesis by (simp add: convertConfig_fields)
qed

theorem conversion_deterministic_without_name_collision_witness:
  "sameInput sharedConfig (sharedConfig\<lparr>Jobs := rev (Jobs sharedConfig)\<rparr>) \<and>
   distinct (map fst (Jobs sharedConfig)) \<and> distinct (map fst (Commands sharedConfig)) \<and>
   visiting id \<and> visiting rev \<and>
   inj_on generateTaskName {c. 2 \<le> occurrences sharedConfig c} \<and>
   map_of (Tasks (snd (convertConfig id sharedConfig)))
     = map_of (Tasks (snd (convertConfig rev (sharedConfig\<lparr>Jobs := rev (Jobs sharedConfig)\<rparr>))))"
proof -
  have L: "jobCommands sharedConfig = [''npm install'', ''npm run build'', ''npm install'', ''npm test'']"
    by code_simp
  have S: "{c. 2 \<le> occurrences sharedConfig c} = {''npm install''}"
    by (auto simp: occurrences_def L split: if_splits)
  have h: "sameInput sharedConfig (sharedConfig\<lparr>Jobs := rev (Jobs sharedConfig)\<rparr>)"
    "distinct (map fst (Jobs sharedConfig))" "distinct (map fst (Commands sharedConfig))"
    "visiting id" "visiting rev"
    by (simp_all add: sameInput_def sharedConfig_def visiting_def)
  have i: "inj_on generateTaskName {c. 2 \<le> occurrences sharedConfig c}" unfolding S by simp
  from conversion_deterministic_without_name_collision[OF h i] h i show ?thesis by blast
qed

text \<open>
  Two commands, each used twice, both with the derived name \<^verbatim>\<open>npm-run-build\<close>: the
  command visited last keeps the name, the steps with the other command stay inline.
  And an invocation with two arguments: the call line lists them in the order visited.
\<close>

theorem name_collision_depends_on_visiting_order:
  "visiting id \<and> visiting rev \<and>
   map_option Cmds (map_of (Tasks (snd (convertConfig id collideConfig))) ''npm-run-build'')
     = Some [''npm run build --dev''] \<and>
   map_option Cmds (map_of (Tasks (snd (convertConfig rev collideConfig))) ''npm-run-build'')
     = Some [''npm run build --prod''] \<and>
   map_option Cmds (map_of (Tasks (snd (convertConfig id collideConfig))) ''build'')
     = Some [''npm run build --prod''] \<and>
   map_option Cmds (map_of (Tasks (snd (convertConfig rev collideConfig))) ''build'')
     = Some [''npm run build --dev''] \<and>
   generateTaskCallWithParams ''deploy''
       (Map [(''deploy'', Map [(''region'', Str ''eu''), (''target'', Str ''staging'')])]) []
     = ''task deploy REGION=eu TARGET=staging'' \<and>
   generateTaskCallWithParams ''deploy''
       (Map [(''deploy'', Map [(''target'', Str ''staging''), (''region'', Str ''eu'')])]) []
     = ''task deploy TARGET=staging REGION=eu''"
proof -
  have "visiting id" "visiting rev" by (simp_all add: visiting_def)
  moreover have
   "map_option Cmds (map_of (Tasks (snd (convertConfig id collideConfig))) ''npm-run-build'')
     = Some [''npm run build --dev''] \<and>
   map_option Cmds (map_of (Tasks (snd (convertConfig rev collideConfig))) ''npm-run-build'')
     = Some [''npm run build --prod''] \<and>
   map_option Cmds (map_of (Tasks (snd (convertConfig id collideConfig))) ''build'')
     = Some [''npm run build --prod''] \<and>
   map_option Cmds (map_of (Tasks (snd (convertConfig rev collideConfig))) ''build'')
     = Some [''npm run build --dev''] \<and>
   generateTaskCallWithParams ''deploy''
       (Map [(''deploy'', Map [(''region'', Str ''eu''), (''target'', Str ''staging'')])]) []
     = ''task deploy REGION=eu TARGET=staging'' \<and>
   generateTaskCallWithParams ''deploy''
       (Map [(''deploy'', Map [(''target'', Str ''staging''), (''region'', Str ''eu'')])]) []
     = ''task deploy TARGET=staging REGION=eu''"
    by code_simp
  ultimately show ?thesis by blast
qed

end
